theory Spec2Isabelle
  imports Main "HOL-Library.Word" "HOL-Library.Char_ord" "HOL-Library.List_Lexorder"
    "HOL-Library.AList" "HOL-Library.Multiset"
begin

unbundle bit_operations_syntax

section \<open>Data model\<close>

text \<open>
  Bytes are 8-bit words. A Go \<open>float32\<close> is carried as its IEEE-754 bit pattern (what
  \<open>math.Float32bits\<close> yields): the codec moves the bits unchanged, and the comparisons
  the adapters make are defined on the pattern. Signed integers are carried as the word of
  their two's complement pattern (\<open>sint\<close> reads them).
\<close>

type_synonym byte = "8 word"
type_synonym float32 = "32 word"
type_synonym float64 = "64 word"

datatype ByteOrder = LittleEndian | BigEndian

text \<open>
  Every error return and every panic of the source is a value of \<open>error\<close>.
  \<open>IoError\<close> is a failure reported by a tensor's payload provider.
\<close>

datatype error =
    EOF
  | ErrUnexpectedEOF
  | InvalidType "32 word"
  | InvalidArrayType "32 word"
  | ImproperType string
  | SeekError
  | IoError string
  | UnknownArchitecture
  | UnsupportedArchitecture
  | UnknownTensorFormat
  | Panic string

text \<open>
  The dynamic values a Go \<open>any\<close> holds in a metadata map. The writer's typed slices
  (\<open>[]int32\<close>, \<open>[]uint32\<close>, \<open>[]float32\<close>, \<open>[]string\<close>) and the reader's generic
  \<open>[]any\<close> are different runtime types, so they are different constructors; \<open>Nil\<close> is
  the nil interface (what a Go map returns for a missing key).
\<close>

datatype gval =
    U8 "8 word" | I8 "8 word" | U16 "16 word" | I16 "16 word"
  | U32 "32 word" | I32 "32 word" | U64 "64 word" | I64 "64 word"
  | F32 float32 | F64 float64 | Bool bool | Str string
  | ArrI32 "32 word list" | ArrU32 "32 word list" | ArrF32 "float32 list"
  | ArrStr "string list" | ArrAny "gval list" | Nil

text \<open>
  A Go \<open>map[string]any\<close> is an association list with distinct keys; the order of the
  list stands for the unspecified iteration order of the map. \<open>kv[k] = v\<close> is
  \<^const>\<open>AList.update\<close>, \<open>kv[k]\<close> is \<^const>\<open>map_of\<close>.
\<close>

type_synonym KV = "(string \<times> gval) list"

text \<open>
  \<open>llm.Tensor\<close>. \<open>WriterTo\<close> is the attached payload provider: \<open>None\<close> is a nil
  provider (a decoded descriptor has none), \<open>Some (Inr bs)\<close> streams \<open>bs\<close> into the sink,
  \<open>Some (Inl e)\<close> fails with \<open>e\<close>.
\<close>

record Tensor =
  Name :: string
  Kind :: "32 word"
  Offset :: "64 word"
  Shape :: "64 word list"
  WriterTo :: "(error + byte list) option"

text \<open>
  Modelled from the spec: \<open>Tensor.parameters\<close> is a method of \<open>llm.Tensor\<close> that the
  given sources call but do not contain. Section 4.2 of the specification: the parameter
  count of a tensor is the product of its shape dimensions (a \<open>uint64\<close> computation).
\<close>

definition parameters :: "Tensor \<Rightarrow> 64 word" where
  "parameters t = prod_list (Shape t)"

text \<open>
  Modelled from the spec: \<open>Tensor.Size\<close> (not in the given sources), by the invariant
  of section 3, \<open>size_bytes = product(shape) \<times> bytes_per_element(kind)\<close>, with the
  table \<open>bytes_per_element\<close> as the parameter \<open>bpe\<close>.
\<close>

definition Size :: "(32 word \<Rightarrow> 64 word) \<Rightarrow> Tensor \<Rightarrow> 64 word" where
  "Size bpe t = parameters t * bpe (Kind t)"

abbreviation ggufTypeUint8 :: "32 word" where "ggufTypeUint8 \<equiv> 0"
abbreviation ggufTypeInt8 :: "32 word" where "ggufTypeInt8 \<equiv> 1"
abbreviation ggufTypeUint16 :: "32 word" where "ggufTypeUint16 \<equiv> 2"
abbreviation ggufTypeInt16 :: "32 word" where "ggufTypeInt16 \<equiv> 3"
abbreviation ggufTypeUint32 :: "32 word" where "ggufTypeUint32 \<equiv> 4"
abbreviation ggufTypeInt32 :: "32 word" where "ggufTypeInt32 \<equiv> 5"
abbreviation ggufTypeFloat32 :: "32 word" where "ggufTypeFloat32 \<equiv> 6"
abbreviation ggufTypeBool :: "32 word" where "ggufTypeBool \<equiv> 7"
abbreviation ggufTypeString :: "32 word" where "ggufTypeString \<equiv> 8"
abbreviation ggufTypeArray :: "32 word" where "ggufTypeArray \<equiv> 9"
abbreviation ggufTypeUint64 :: "32 word" where "ggufTypeUint64 \<equiv> 10"
abbreviation ggufTypeInt64 :: "32 word" where "ggufTypeInt64 \<equiv> 11"
abbreviation ggufTypeFloat64 :: "32 word" where "ggufTypeFloat64 \<equiv> 12"

text \<open>The decoded model: the container header and what \<open>gguf.Decode\<close> fills in.\<close>

record gguf =
  Version :: "32 word"
  NumTensor :: "64 word"
  NumKV :: "64 word"
  kv :: KV
  tensors :: "Tensor list"
  gparameters :: "64 word"

section \<open>Primitive codec\<close>

definition bnd :: "error + 'a \<Rightarrow> ('a \<Rightarrow> error + 'b) \<Rightarrow> error + 'b" where
  "bnd m f = (case m of Inl e \<Rightarrow> Inl e | Inr x \<Rightarrow> f x)"

definition bytes_of_string :: "string \<Rightarrow> byte list" where
  "bytes_of_string s = map (\<lambda>c. of_nat (of_char c)) s"

definition string_of_bytes :: "byte list \<Rightarrow> string" where
  "string_of_bytes bs = map (\<lambda>b. char_of (unat b)) bs"

text \<open>\<open>binary.LittleEndian\<close>: the low byte first.\<close>

definition le8 :: "8 word \<Rightarrow> byte list" where
  "le8 x = [x]"

definition le16 :: "16 word \<Rightarrow> byte list" where
  "le16 x = [ucast x, ucast (drop_bit 8 x)]"

definition le32 :: "32 word \<Rightarrow> byte list" where
  "le32 x = [ucast x, ucast (drop_bit 8 x), ucast (drop_bit 16 x), ucast (drop_bit 24 x)]"

definition le64 :: "64 word \<Rightarrow> byte list" where
  "le64 x = [ucast x, ucast (drop_bit 8 x), ucast (drop_bit 16 x), ucast (drop_bit 24 x),
     ucast (drop_bit 32 x), ucast (drop_bit 40 x), ucast (drop_bit 48 x),
     ucast (drop_bit 56 x)]"

primrec le_word :: "byte list \<Rightarrow> 'a::len word" where
  "le_word [] = 0"
| "le_word (b # bs) = ucast b OR push_bit 8 (le_word bs)"

definition decode_word :: "ByteOrder \<Rightarrow> byte list \<Rightarrow> 'a::len word" where
  "decode_word bo bs = (case bo of LittleEndian \<Rightarrow> le_word bs | BigEndian \<Rightarrow> le_word (rev bs))"

text \<open>
  The read side is a file (its bytes) and a position in it. \<open>read_full\<close> is
  \<open>io.ReadFull\<close>, which \<open>binary.Read\<close> uses for a value of \<open>n\<close> bytes: \<open>EOF\<close> when no
  byte is left, \<open>ErrUnexpectedEOF\<close> when some but fewer than \<open>n\<close> are.
\<close>

definition read_full :: "byte list \<Rightarrow> nat \<Rightarrow> nat \<Rightarrow> error + (byte list \<times> nat)" where
  "read_full file pos n =
     (if n = 0 then Inr ([], pos)
      else if n \<le> length (drop pos file) then Inr (take n (drop pos file), pos + n)
      else if drop pos file = [] then Inl EOF
      else Inl ErrUnexpectedEOF)"

text \<open>
  \<open>io.CopyN(&b, r, n)\<close> with a signed count: a negative \<open>n\<close> copies nothing and reports
  no error (the limited reader is at its end at once, and \<open>written < n\<close> is false); a
  source that ends before \<open>n\<close> bytes gives \<open>EOF\<close>.
\<close>

definition copy_n :: "byte list \<Rightarrow> nat \<Rightarrow> int \<Rightarrow> error + (byte list \<times> nat)" where
  "copy_n file pos n =
     (if n < 0 then Inr ([], pos)
      else if nat n \<le> length (drop pos file) then Inr (take (nat n) (drop pos file), pos + nat n)
      else Inl EOF)"

text \<open>\<open>rs.Seek(off, io.SeekCurrent)\<close> on an \<open>int64\<close> position.\<close>

definition seek_current :: "nat \<Rightarrow> int \<Rightarrow> error + nat" where
  "seek_current pos off =
     (if int pos + off < 0 \<or> 2 ^ 63 \<le> int pos + off then Inl SeekError
      else Inr (nat (int pos + off)))"

text \<open>\<open>readGGUF[T]\<close> for the integer and float types of \<open>n\<close> bytes, and for \<open>bool\<close>.\<close>

definition readGGUF :: "ByteOrder \<Rightarrow> nat \<Rightarrow> byte list \<Rightarrow> nat \<Rightarrow> error + ('a::len word \<times> nat)" where
  "readGGUF bo n file pos =
     bnd (read_full file pos n) (\<lambda>(bs, pos'). Inr (decode_word bo bs, pos'))"

definition readGGUF_bool :: "byte list \<Rightarrow> nat \<Rightarrow> error + (bool \<times> nat)" where
  "readGGUF_bool file pos =
     bnd (read_full file pos 1) (\<lambda>(bs, pos'). Inr (bs \<noteq> [0], pos'))"

definition readGGUFV1String :: "ByteOrder \<Rightarrow> byte list \<Rightarrow> nat \<Rightarrow> error + (string \<times> nat)" where
  "readGGUFV1String bo file pos =
     bnd (readGGUF bo 8 file pos) (\<lambda>(len :: 64 word, pos1).
     bnd (copy_n file pos1 (sint len)) (\<lambda>(b, pos2).
       if int (length b) - 1 < 0 then Inl (Panic ''bytes.Buffer: truncation out of range'')
       else Inr (string_of_bytes (take (nat (int (length b) - 1)) b), pos2)))"

definition readGGUFString :: "ByteOrder \<Rightarrow> 32 word \<Rightarrow> byte list \<Rightarrow> nat \<Rightarrow> error + (string \<times> nat)" where
  "readGGUFString bo ver file pos =
     (if ver = 1 then readGGUFV1String bo file pos
      else
        bnd (readGGUF bo 8 file pos) (\<lambda>(len :: 64 word, pos1).
        bnd (copy_n file pos1 (sint len)) (\<lambda>(b, pos2).
          Inr (string_of_bytes b, pos2))))"

definition tag :: "('a \<Rightarrow> gval) \<Rightarrow> error + ('a \<times> nat) \<Rightarrow> error + (gval \<times> nat)" where
  "tag c r = bnd r (\<lambda>(x, pos). Inr (c x, pos))"

text \<open>
  The eleven fixed-width cases that open each of the three type switches of the reader
  (\<open>gguf.Decode\<close>, \<open>readGGUFV1Array\<close>, \<open>readGGUFArray\<close>), in the order of the source;
  \<open>None\<close> when the tag is none of them.
\<close>

definition readGGUF_scalar ::
    "ByteOrder \<Rightarrow> 32 word \<Rightarrow> byte list \<Rightarrow> nat \<Rightarrow> (error + (gval \<times> nat)) option" where
  "readGGUF_scalar bo t file pos =
     (if t = ggufTypeUint8 then Some (tag U8 (readGGUF bo 1 file pos))
      else if t = ggufTypeInt8 then Some (tag I8 (readGGUF bo 1 file pos))
      else if t = ggufTypeUint16 then Some (tag U16 (readGGUF bo 2 file pos))
      else if t = ggufTypeInt16 then Some (tag I16 (readGGUF bo 2 file pos))
      else if t = ggufTypeUint32 then Some (tag U32 (readGGUF bo 4 file pos))
      else if t = ggufTypeInt32 then Some (tag I32 (readGGUF bo 4 file pos))
      else if t = ggufTypeUint64 then Some (tag U64 (readGGUF bo 8 file pos))
      else if t = ggufTypeInt64 then Some (tag I64 (readGGUF bo 8 file pos))
      else if t = ggufTypeFloat32 then Some (tag F32 (readGGUF bo 4 file pos))
      else if t = ggufTypeFloat64 then Some (tag F64 (readGGUF bo 8 file pos))
      else if t = ggufTypeBool then Some (tag Bool (readGGUF_bool file pos))
      else None)"

text \<open>
  One element of an array: the switch inside the loops of \<open>readGGUFV1Array\<close> and
  \<open>readGGUFArray\<close>. A string element is read by \<open>readGGUFV1String\<close> in the first and by
  \<open>readGGUFString\<close> in the second; for version 1 the two agree.
\<close>

definition readGGUF_element ::
    "ByteOrder \<Rightarrow> 32 word \<Rightarrow> 32 word \<Rightarrow> byte list \<Rightarrow> nat \<Rightarrow> error + (gval \<times> nat)" where
  "readGGUF_element bo ver t file pos =
     (case readGGUF_scalar bo t file pos of
        Some r \<Rightarrow> r
      | None \<Rightarrow>
          if t = ggufTypeString then tag Str (readGGUFString bo ver file pos)
          else Inl (InvalidArrayType t))"

text \<open>The loop \<open>for i := 0; i < n; i++ { ...; a = append(a, e) }\<close> of both array readers.\<close>

primrec read_elements ::
    "ByteOrder \<Rightarrow> 32 word \<Rightarrow> 32 word \<Rightarrow> byte list \<Rightarrow> nat \<Rightarrow> nat \<Rightarrow> gval list
       \<Rightarrow> error + (gval list \<times> nat)" where
  "read_elements bo ver t file 0 pos a = Inr (a, pos)"
| "read_elements bo ver t file (Suc n) pos a =
     bnd (readGGUF_element bo ver t file pos) (\<lambda>(e, pos').
       read_elements bo ver t file n pos' (a @ [e]))"

definition readGGUFV1Array :: "ByteOrder \<Rightarrow> byte list \<Rightarrow> nat \<Rightarrow> error + (gval list \<times> nat)" where
  "readGGUFV1Array bo file pos =
     bnd (readGGUF bo 4 file pos) (\<lambda>(t :: 32 word, pos1).
     bnd (readGGUF bo 4 file pos1) (\<lambda>(n :: 32 word, pos2).
       read_elements bo 1 t file (unat n) pos2 []))"

definition readGGUFArray :: "ByteOrder \<Rightarrow> 32 word \<Rightarrow> byte list \<Rightarrow> nat \<Rightarrow> error + (gval list \<times> nat)" where
  "readGGUFArray bo ver file pos =
     (if ver = 1 then readGGUFV1Array bo file pos
      else
        bnd (readGGUF bo 4 file pos) (\<lambda>(t :: 32 word, pos1).
        bnd (readGGUF bo 8 file pos1) (\<lambda>(n :: 64 word, pos2).
          read_elements bo ver t file (unat n) pos2 [])))"

text \<open>
  \<open>ggufPadding\<close> on \<open>int64\<close>: Go's \<open>%\<close> truncates towards zero and panics on a zero
  divisor.
\<close>

definition go_rem :: "int \<Rightarrow> int \<Rightarrow> int" where
  "go_rem a b = sgn a * (\<bar>a\<bar> mod \<bar>b\<bar>)"

definition ggufPadding :: "int \<Rightarrow> int \<Rightarrow> error + int" where
  "ggufPadding offset align =
     (if align = 0 then Inl (Panic ''runtime error: integer divide by zero'')
      else Inr (go_rem (align - go_rem offset align) align))"

section \<open>GGUF reader\<close>

text \<open>
  The switch of \<open>gguf.Decode\<close> on the value type of a metadata entry: the fixed-width
  cases, then \<open>ggufTypeString\<close>, \<open>ggufTypeArray\<close>, and the default that returns
  \<open>invalid type\<close>. An array comes back as \<open>[]any\<close>.
\<close>

definition readGGUF_value ::
    "ByteOrder \<Rightarrow> 32 word \<Rightarrow> 32 word \<Rightarrow> byte list \<Rightarrow> nat \<Rightarrow> error + (gval \<times> nat)" where
  "readGGUF_value bo ver t file pos =
     (case readGGUF_scalar bo t file pos of
        Some r \<Rightarrow> r
      | None \<Rightarrow>
          if t = ggufTypeString then tag Str (readGGUFString bo ver file pos)
          else if t = ggufTypeArray then tag ArrAny (readGGUFArray bo ver file pos)
          else Inl (InvalidType t))"

text \<open>The first loop of \<open>gguf.Decode\<close>: \<open>numKV\<close> entries, each stored with \<open>llm.kv[k] = v\<close>.\<close>

primrec decode_kvs ::
    "ByteOrder \<Rightarrow> 32 word \<Rightarrow> byte list \<Rightarrow> nat \<Rightarrow> nat \<Rightarrow> KV \<Rightarrow> error + (KV \<times> nat)" where
  "decode_kvs bo ver file 0 pos m = Inr (m, pos)"
| "decode_kvs bo ver file (Suc n) pos m =
     bnd (readGGUFString bo ver file pos) (\<lambda>(k, pos1).
     bnd (readGGUF bo 4 file pos1) (\<lambda>(t :: 32 word, pos2).
     bnd (readGGUF_value bo ver t file pos2) (\<lambda>(v, pos3).
       decode_kvs bo ver file n pos3 (AList.update k v m))))"

text \<open>The inner loop that fills \<open>shape[i]\<close> for \<open>i < dims\<close>, in the order of the file.\<close>

primrec read_shape ::
    "ByteOrder \<Rightarrow> byte list \<Rightarrow> nat \<Rightarrow> nat \<Rightarrow> 64 word list \<Rightarrow> error + (64 word list \<times> nat)" where
  "read_shape bo file 0 pos shape = Inr (shape, pos)"
| "read_shape bo file (Suc n) pos shape =
     bnd (readGGUF bo 8 file pos) (\<lambda>(d :: 64 word, pos').
       read_shape bo file n pos' (shape @ [d]))"

text \<open>The second loop: \<open>numTensor\<close> descriptors, and the running parameter count.\<close>

primrec decode_tensors ::
    "ByteOrder \<Rightarrow> 32 word \<Rightarrow> byte list \<Rightarrow> nat \<Rightarrow> nat \<Rightarrow> Tensor list \<Rightarrow> 64 word
       \<Rightarrow> error + (Tensor list \<times> 64 word \<times> nat)" where
  "decode_tensors bo ver file 0 pos ts ps = Inr (ts, ps, pos)"
| "decode_tensors bo ver file (Suc n) pos ts ps =
     bnd (readGGUFString bo ver file pos) (\<lambda>(name, pos1).
     bnd (readGGUF bo 4 file pos1) (\<lambda>(dims :: 32 word, pos2).
     bnd (read_shape bo file (unat dims) pos2 []) (\<lambda>(shape, pos3).
     bnd (readGGUF bo 4 file pos3) (\<lambda>(kind :: 32 word, pos4).
     bnd (readGGUF bo 8 file pos4) (\<lambda>(offset :: 64 word, pos5).
       let tensor = \<lparr>Name = name, Kind = kind, Offset = offset, Shape = shape,
                       WriterTo = None\<rparr>
       in decode_tensors bo ver file n pos5 (ts @ [tensor]) (ps + parameters tensor))))))"

text \<open>The last loop: the stream is moved past each payload and its padding.\<close>

fun seek_tensors :: "(32 word \<Rightarrow> 64 word) \<Rightarrow> int \<Rightarrow> Tensor list \<Rightarrow> nat \<Rightarrow> error + nat" where
  "seek_tensors bpe align [] pos = Inr pos"
| "seek_tensors bpe align (t # ts) pos =
     bnd (seek_current pos (sint (Size bpe t))) (\<lambda>pos1.
     bnd (ggufPadding (sint (Size bpe t)) align) (\<lambda>padding.
     bnd (seek_current pos1 padding) (\<lambda>pos2.
       seek_tensors bpe align ts pos2)))"

text \<open>
  The tail of \<open>gguf.Decode\<close>: the current offset is queried, the stream is moved to the
  next multiple of the alignment and then past every payload.
\<close>

definition skip_payloads :: "(32 word \<Rightarrow> 64 word) \<Rightarrow> int \<Rightarrow> Tensor list \<Rightarrow> nat \<Rightarrow> error + nat" where
  "skip_payloads bpe alignment ts pos =
     bnd (seek_current pos 0) (\<lambda>offset.
     bnd (ggufPadding (int offset) alignment) (\<lambda>padding.
     bnd (seek_current offset padding) (\<lambda>pos3.
       seek_tensors bpe alignment ts pos3)))"

text \<open>\<open>llm.kv["general.alignment"].(uint32)\<close>, with the default 32 when the assertion fails.\<close>

definition alignment_of :: "KV \<Rightarrow> 32 word" where
  "alignment_of m = (case map_of m ''general.alignment'' of Some (U32 a) \<Rightarrow> a | _ \<Rightarrow> 32)"

definition gguf_Decode ::
    "(32 word \<Rightarrow> 64 word) \<Rightarrow> ByteOrder \<Rightarrow> 32 word \<Rightarrow> 64 word \<Rightarrow> 64 word \<Rightarrow> byte list \<Rightarrow> nat
       \<Rightarrow> error + (gguf \<times> nat)" where
  "gguf_Decode bpe bo ver numTensor numKV file pos =
     bnd (decode_kvs bo ver file (unat numKV) pos []) (\<lambda>(kv1, pos1).
     bnd (decode_tensors bo ver file (unat numTensor) pos1 [] 0) (\<lambda>(ts, ps, pos2).
       let kv2 = AList.update ''general.parameter_count'' (U64 ps) kv1;
           alignment = alignment_of kv2
       in
     bnd (skip_payloads bpe (uint alignment) ts pos2) (\<lambda>pos4.
       Inr (\<lparr>Version = ver, NumTensor = numTensor, NumKV = numKV, kv = kv2,
              tensors = ts, gparameters = ps\<rparr>, pos4))))"

text \<open>
  \<open>containerGGUF.Decode\<close>: the stream stands right after the four bytes of the magic.
  The header struct is read in one \<open>binary.Read\<close>: two 32-bit counts for version 1, two
  64-bit counts otherwise (tensors first, then keys).
\<close>

definition containerGGUF_Decode ::
    "(32 word \<Rightarrow> 64 word) \<Rightarrow> ByteOrder \<Rightarrow> byte list \<Rightarrow> nat \<Rightarrow> error + (gguf \<times> nat)" where
  "containerGGUF_Decode bpe bo file pos =
     bnd (readGGUF bo 4 file pos) (\<lambda>(ver :: 32 word, pos1).
       if ver = 1 then
         bnd (read_full file pos1 8) (\<lambda>(bs, pos2).
           gguf_Decode bpe bo ver
             (ucast (decode_word bo (take 4 bs) :: 32 word))
             (ucast (decode_word bo (drop 4 bs) :: 32 word)) file pos2)
       else
         bnd (read_full file pos1 16) (\<lambda>(bs, pos2).
           gguf_Decode bpe bo ver
             (decode_word bo (take 8 bs)) (decode_word bo (drop 8 bs)) file pos2))"

section \<open>GGUF writer\<close>

text \<open>
  The sink is an in-memory file written from its start: its state is the bytes written so
  far, every \<open>binary.Write\<close> appends, and \<open>ws.Seek(0, io.SeekCurrent)\<close> is the number of
  bytes written. What can fail is a value of a type the writer does not know and a
  tensor's payload provider.
\<close>

definition writeGGUF :: "byte list \<Rightarrow> 32 word \<Rightarrow> byte list \<Rightarrow> byte list" where
  "writeGGUF w t v = w @ le32 t @ v"

definition writeGGUFString :: "byte list \<Rightarrow> string \<Rightarrow> byte list" where
  "writeGGUFString w s =
     w @ le32 ggufTypeString @ le64 (of_nat (length s)) @ bytes_of_string s"

definition writeGGUFArray :: "byte list \<Rightarrow> 32 word \<Rightarrow> byte list list \<Rightarrow> byte list" where
  "writeGGUFArray w t s =
     w @ le32 ggufTypeArray @ le32 t @ le64 (of_nat (length s)) @ concat s"

definition le_bool :: "bool \<Rightarrow> byte list" where
  "le_bool b = (if b then [1] else [0])"

definition ggufWriteKV :: "byte list \<Rightarrow> string \<Rightarrow> gval \<Rightarrow> error + byte list" where
  "ggufWriteKV ws k v =
     (let ws1 = ws @ le64 (of_nat (length k));
          ws2 = ws1 @ bytes_of_string k
      in case v of
           U32 x \<Rightarrow> Inr (writeGGUF ws2 ggufTypeUint32 (le32 x))
         | F32 x \<Rightarrow> Inr (writeGGUF ws2 ggufTypeFloat32 (le32 x))
         | Bool b \<Rightarrow> Inr (writeGGUF ws2 ggufTypeBool (le_bool b))
         | Str s \<Rightarrow> Inr (writeGGUFString ws2 s)
         | ArrI32 xs \<Rightarrow> Inr (writeGGUFArray ws2 ggufTypeInt32 (map le32 xs))
         | ArrU32 xs \<Rightarrow> Inr (writeGGUFArray ws2 ggufTypeUint32 (map le32 xs))
         | ArrF32 xs \<Rightarrow> Inr (writeGGUFArray ws2 ggufTypeFloat32 (map le32 xs))
         | ArrStr xs \<Rightarrow>
             Inr (ws2 @ le32 ggufTypeArray @ le32 ggufTypeString @ le64 (of_nat (length xs))
                  @ concat (map (\<lambda>e. le64 (of_nat (length e)) @ bytes_of_string e) xs))
         | _ \<Rightarrow> Inl (ImproperType k))"

text \<open>\<open>kv[key]\<close> as the writer reads it: the nil interface for a missing key.\<close>

definition kv_get :: "KV \<Rightarrow> string \<Rightarrow> gval" where
  "kv_get m key = (case map_of m key of Some v \<Rightarrow> v | None \<Rightarrow> Nil)"

text \<open>\<open>for _, key := range keys { ggufWriteKV(ws, key, kv[key]) }\<close>, stopping at an error.\<close>

fun write_kvs :: "byte list \<Rightarrow> KV \<Rightarrow> string list \<Rightarrow> error + byte list" where
  "write_kvs ws m [] = Inr ws"
| "write_kvs ws m (key # keys) =
     bnd (ggufWriteKV ws key (kv_get m key))
       (\<lambda>ws'. write_kvs ws' m keys)"

text \<open>
  The dimensions are written by the loop \<open>for i := 0; i < len(t.Shape); i++\<close> from
  \<open>t.Shape[len(t.Shape)-i-1]\<close>.
\<close>

definition ggufWriteTensorInfo :: "byte list \<Rightarrow> Tensor \<Rightarrow> byte list" where
  "ggufWriteTensorInfo ws t =
     ws @ le64 (of_nat (length (Name t))) @ bytes_of_string (Name t)
        @ le32 (of_nat (length (Shape t)))
        @ concat (map (\<lambda>i. le64 (Shape t ! (length (Shape t) - i - 1))) [0..<length (Shape t)])
        @ le32 (Kind t) @ le64 (Offset t)"

text \<open>
  \<open>for _, t := range ts { t.Offset = s; ggufWriteTensorInfo(ws, t); s += t.Size() }\<close>
\<close>

fun write_infos :: "(32 word \<Rightarrow> 64 word) \<Rightarrow> byte list \<Rightarrow> 64 word \<Rightarrow> Tensor list \<Rightarrow> byte list" where
  "write_infos bpe ws s [] = ws"
| "write_infos bpe ws s (t # ts) =
     write_infos bpe (ggufWriteTensorInfo ws (t\<lparr>Offset := s\<rparr>))
       (s + Size bpe (t\<lparr>Offset := s\<rparr>)) ts"

definition ggufWriteTensor :: "byte list \<Rightarrow> Tensor \<Rightarrow> int \<Rightarrow> error + byte list" where
  "ggufWriteTensor ws t alignment =
     (case WriterTo t of
        None \<Rightarrow> Inl (Panic ''runtime error: invalid memory address or nil pointer dereference'')
      | Some (Inl e) \<Rightarrow> Inl e
      | Some (Inr payload) \<Rightarrow>
          bnd (ggufPadding (int (length (ws @ payload))) alignment) (\<lambda>padding.
            Inr (ws @ payload @ replicate (nat padding) 0)))"

fun write_tensors :: "byte list \<Rightarrow> Tensor list \<Rightarrow> int \<Rightarrow> error + byte list" where
  "write_tensors ws [] alignment = Inr ws"
| "write_tensors ws (t # ts) alignment =
     bnd (ggufWriteTensor ws t alignment) (\<lambda>ws'. write_tensors ws' ts alignment)"

text \<open>
  \<open>WriteGGUF\<close>. \<open>slices.Sort(keys)\<close> sorts the keys of a map, which are distinct, so
  its result is the sorted list. \<open>slices.SortFunc(ts, cmp)\<close> with the comparator
  \<open>cmp.Compare(a.Name, b.Name)\<close> is library code that sorts the slice in place and is
  documented as not stable: the order it leaves among tensors of one name is the
  library's. The model takes the sorting procedure as the parameter \<open>srt\<close>, and the slice
  after the call is \<open>srt ts\<close>; the header has been written before, with \<open>len(ts)\<close>.
\<close>

definition WriteGGUF ::
    "(32 word \<Rightarrow> 64 word) \<Rightarrow> (Tensor list \<Rightarrow> Tensor list) \<Rightarrow> byte list \<Rightarrow> KV \<Rightarrow> Tensor list
       \<Rightarrow> error + byte list" where
  "WriteGGUF bpe srt ws m ts =
     (let ws1 = ws @ bytes_of_string ''GGUF'';
          ws2 = ws1 @ le32 3;
          ws3 = ws2 @ le64 (of_nat (length ts));
          ws4 = ws3 @ le64 (of_nat (length m));
          keys = sort (map fst m)
      in bnd (write_kvs ws4 m keys) (\<lambda>ws5.
           let sorted_ts = srt ts;
               ws6 = write_infos bpe ws5 0 sorted_ts
           in bnd (ggufPadding (int (length ws6)) 32) (\<lambda>padding.
                write_tensors (ws6 @ replicate (nat padding) 0) sorted_ts 32)))"

section \<open>Conversion: vocabulary and special tokens\<close>

abbreviation tokenTypeNormal :: "32 word" where "tokenTypeNormal \<equiv> 1"
abbreviation tokenTypeUnknown :: "32 word" where "tokenTypeUnknown \<equiv> 2"
abbreviation tokenTypeControl :: "32 word" where "tokenTypeControl \<equiv> 3"
abbreviation tokenTypeUserDefined :: "32 word" where "tokenTypeUserDefined \<equiv> 4"
abbreviation tokenTypeUnused :: "32 word" where "tokenTypeUnused \<equiv> 5"
abbreviation tokenTypeByte :: "32 word" where "tokenTypeByte \<equiv> 6"

record Vocabulary =
  Tokens :: "string list"
  Scores :: "float32 list"
  Types :: "32 word list"
  Merges :: "string list"

record SpecialVocabulary =
  Type :: string
  ID :: int
  Content :: string
  AddToken :: bool

record Parameters =
  Architectures :: "string list"
  VocabSize :: "32 word"

text \<open>\<open>SpecialVocabulary.Key\<close>: the switch has four cases and then the panic.\<close>

definition Key :: "SpecialVocabulary \<Rightarrow> error + string" where
  "Key sv =
     (let t = Type sv
      in if t = ''bos'' \<or> t = ''eos'' then Inr t
         else if t = ''pad'' then Inr ''padding''
         else if t = ''unk'' then Inr ''unknown''
         else Inl (Panic ''unknown special vocabulary type''))"

text \<open>The loop of \<open>Parameters.KV\<close> over the special vocabulary; \<open>uint32(sv.ID)\<close> truncates.\<close>

fun add_special :: "KV \<Rightarrow> SpecialVocabulary list \<Rightarrow> error + KV" where
  "add_special m [] = Inr m"
| "add_special m (sv # svs) =
     bnd (Key sv) (\<lambda>k1.
       let m1 = AList.update (''tokenizer.ggml.'' @ k1 @ ''_token_id'') (U32 (of_int (ID sv))) m
       in bnd (Key sv) (\<lambda>k2.
            add_special
              (AList.update (''tokenizer.ggml.add_'' @ k2 @ ''_token'') (Bool (AddToken sv)) m1)
              svs))"

definition Parameters_KV :: "Vocabulary \<Rightarrow> SpecialVocabulary list \<Rightarrow> error + KV" where
  "Parameters_KV v svs =
     add_special
       [(''general.file_type'', U32 1),
        (''tokenizer.ggml.pre'', Str ''default''),
        (''tokenizer.ggml.tokens'', ArrStr (Tokens v)),
        (''tokenizer.ggml.scores'', ArrF32 (Scores v)),
        (''tokenizer.ggml.token_type'', ArrI32 (Types v))]
       svs"

definition SpecialTypes :: "string list" where
  "SpecialTypes = [''bos'', ''eos'', ''unk'', ''sep'', ''pad'', ''cls'', ''mask'']"

text \<open>
  \<open>parseVocabulary\<close> ranges over a Go map of two patterns; the order of that iteration is
  not fixed by the language, so it is an argument: \<open>order\<close> lists the entries of the map
  as the loop meets them. \<open>glob d pattern\<close> stands for
  \<open>filepath.Glob(filepath.Join(d, pattern))\<close>, and \<open>parse\<close> for the two parsers,
  which are not part of the sources at hand.
\<close>

datatype parseFn = parseSentencePiece | parseVocabularyFromTokenizer

definition patterns :: "(string \<times> parseFn) list" where
  "patterns = [(''tokenizer.model'', parseSentencePiece),
               (''tokenizer.json'', parseVocabularyFromTokenizer)]"

fun parseVocabulary ::
    "(string \<Rightarrow> string \<Rightarrow> error + string list) \<Rightarrow> (parseFn \<Rightarrow> string \<Rightarrow> error + Vocabulary)
       \<Rightarrow> (string \<times> parseFn) list \<Rightarrow> string \<Rightarrow> error + Vocabulary" where
  "parseVocabulary glob parse [] d = Inl UnknownTensorFormat"
| "parseVocabulary glob parse ((pattern, fn) # order) d =
     (case glob d pattern of
        Inl e \<Rightarrow> Inl e
      | Inr matches \<Rightarrow>
          if length matches > 0 then parse fn d
          else parseVocabulary glob parse order d)"

section \<open>Conversion: the driver's vocabulary padding\<close>

text \<open>\<open>fmt.Sprintf("%05d", i)\<close> for a non-negative \<open>i\<close>: decimal, zero-padded to width 5.\<close>

definition digit_char :: "nat \<Rightarrow> char" where
  "digit_char d = char_of (48 + d)"

function decimal :: "nat \<Rightarrow> string" where
  "decimal n = (if n < 10 then [digit_char n] else decimal (n div 10) @ [digit_char (n mod 10)])"
  by pat_completeness auto
termination
  by (relation "measure id") auto

definition fmt_05d :: "nat \<Rightarrow> string" where
  "fmt_05d i = replicate (5 - length (decimal i)) CHR ''0'' @ decimal i"

definition dummy_token :: "nat \<Rightarrow> string" where
  "dummy_token i = ''<dummy'' @ fmt_05d i @ ''>''"

text \<open>
  The block of \<open>Convert\<close> that follows \<open>parseSpecialVocabulary\<close>. The bound of
  \<open>for i := range vocabSize - len(v.Tokens)\<close> is evaluated once, before the first append.
  A score of \<open>-1\<close> is the \<open>float32\<close> pattern \<open>0xBF800000\<close>.
\<close>

definition pad_step :: "Vocabulary \<Rightarrow> nat \<Rightarrow> Vocabulary" where
  "pad_step v i =
     v\<lparr>Tokens := Tokens v @ [dummy_token i],
       Scores := Scores v @ [0xBF800000],
       Types := Types v @ [tokenTypeUserDefined]\<rparr>"

definition pad_vocabulary :: "32 word \<Rightarrow> Vocabulary \<Rightarrow> Vocabulary" where
  "pad_vocabulary vocab_size v =
     (let vocabSize = uint vocab_size
      in if vocabSize > int (length (Tokens v))
         then foldl pad_step v [0..<nat (vocabSize - int (length (Tokens v)))]
         else v)"

section \<open>Conversion: the Llama and Phi adapters\<close>

text \<open>
  \<open>cmp.Or\<close>: the first argument that differs from the zero value, else the zero value.
  On \<open>float32\<close> the test \<open>val != 0\<close> is the IEEE comparison: both zeros are equal to
  zero, a NaN is not.
\<close>

fun cmp_Or :: "32 word list \<Rightarrow> 32 word" where
  "cmp_Or [] = 0"
| "cmp_Or (x # xs) = (if x \<noteq> 0 then x else cmp_Or xs)"

definition f32_is_zero :: "float32 \<Rightarrow> bool" where
  "f32_is_zero x = (x AND 0x7FFFFFFF = 0)"

definition f32_is_nan :: "float32 \<Rightarrow> bool" where
  "f32_is_nan x = (x AND 0x7F800000 = 0x7F800000 \<and> x AND 0x007FFFFF \<noteq> 0)"

definition f32_gt_zero :: "float32 \<Rightarrow> bool" where
  "f32_gt_zero x = (\<not> f32_is_nan x \<and> \<not> f32_is_zero x \<and> \<not> bit x 31)"

fun cmp_Or_f32 :: "float32 list \<Rightarrow> float32" where
  "cmp_Or_f32 [] = 0"
| "cmp_Or_f32 (x # xs) = (if \<not> f32_is_zero x then x else cmp_Or_f32 xs)"

record llama = Parameters +
  NLayers :: "32 word"
  NumHiddenLayers :: "32 word"
  NLayer :: "32 word"
  MaxPositionEmbeddings :: "32 word"
  NCtx :: "32 word"
  HiddenSize :: "32 word"
  NEmbd :: "32 word"
  IntermediateSize :: "32 word"
  NInner :: "32 word"
  NumAttentionHeads :: "32 word"
  NHead :: "32 word"
  NumKeyValueHeads :: "32 word"
  RopeTheta :: float32
  RMSNormEPS :: float32
  LayerNormEPS :: float32
  LayerNormEpsilon :: float32
  NormEpsilon :: float32
  NumLocalExperts :: "32 word"
  NumExpertsPerToken :: "32 word"

definition set_if :: "bool \<Rightarrow> string \<Rightarrow> gval \<Rightarrow> KV \<Rightarrow> KV" where
  "set_if c k v m = (if c then AList.update k v m else m)"

definition llama_KV :: "llama \<Rightarrow> Vocabulary \<Rightarrow> SpecialVocabulary list \<Rightarrow> error + KV" where
  "llama_KV p v svs =
     bnd (Parameters_KV v svs) (\<lambda>m0.
       let m1 = AList.update ''general.architecture'' (Str ''llama'') m0;
           m2 = AList.update ''general.name'' (Str ''llama'') m1;
           m3 = AList.update ''llama.block_count''
                  (U32 (cmp_Or [NLayers p, NumHiddenLayers p, NLayer p])) m2;
           m4 = AList.update ''llama.vocab_size'' (U32 (VocabSize p)) m3;
           m5 = set_if (cmp_Or [MaxPositionEmbeddings p, NCtx p] > 0) ''llama.context_length''
                  (U32 (cmp_Or [MaxPositionEmbeddings p, NCtx p])) m4;
           m6 = set_if (cmp_Or [HiddenSize p, NEmbd p] > 0) ''llama.embedding_length''
                  (U32 (cmp_Or [HiddenSize p, NEmbd p])) m5;
           m7 = set_if (cmp_Or [IntermediateSize p, NInner p] > 0) ''llama.feed_forward_length''
                  (U32 (cmp_Or [IntermediateSize p, NInner p])) m6;
           headCount = cmp_Or [NumAttentionHeads p, NHead p];
           m8 = set_if (headCount > 0) ''llama.attention.head_count''
                  (U32 (cmp_Or [NumAttentionHeads p, NHead p])) m7;
           m9 = set_if (headCount > 0) ''llama.rope.dimension_count''
                  (U32 (HiddenSize p div headCount)) m8;
           m10 = set_if (NumKeyValueHeads p > 0) ''llama.attention.head_count_kv''
                   (U32 (NumKeyValueHeads p)) m9;
           m11 = set_if (f32_gt_zero (RopeTheta p)) ''llama.attention.rope_freq_base''
                   (F32 (RopeTheta p)) m10;
           m12 = set_if (f32_gt_zero (RMSNormEPS p)) ''llama.attention.layer_norm_rms_epsilon''
                   (F32 (RMSNormEPS p)) m11;
           layerNormEpsilon = cmp_Or_f32 [LayerNormEPS p, LayerNormEpsilon p, NormEpsilon p];
           m13 = set_if (f32_gt_zero layerNormEpsilon) ''llama.attention.layer_norm_epsilon''
                   (F32 layerNormEpsilon) m12;
           m14 = set_if (NumLocalExperts p > 0) ''llama.attention.expert_count''
                   (U32 (NumLocalExperts p)) m13;
           m15 = set_if (NumExpertsPerToken p > 0) ''llama.attention.expert_used_count''
                   (U32 (NumExpertsPerToken p)) m14;
           m16 = set_if (length (Merges v) > 0) ''tokenizer.ggml.merges'' (ArrStr (Merges v)) m15
       in Inr (AList.update ''tokenizer.ggml.model'' (Str ''llama'') m16))"

definition phi_KV :: "Vocabulary \<Rightarrow> SpecialVocabulary list \<Rightarrow> error + KV" where
  "phi_KV v svs =
     bnd (Parameters_KV v svs) (\<lambda>m0.
       Inr (AList.update ''tokenizer.ggml.model'' (Str ''llama'')
              (AList.update ''general.architecture'' (Str ''phi'') m0)))"

text \<open>\<open>phi.Tensors\<close>: \<open>var out []llm.Tensor; return out\<close>, whatever the input is.\<close>

definition phi_Tensors :: "'t list \<Rightarrow> Tensor list" where
  "phi_Tensors ts = []"

text \<open>The architecture switch of \<open>Convert\<close> and its last statement.\<close>

datatype Converter = Llama | Gemma | Phi

definition select_converter :: "string list \<Rightarrow> error + Converter" where
  "select_converter archs =
     (case archs of
        [] \<Rightarrow> Inl UnknownArchitecture
      | a # _ \<Rightarrow>
          if a = ''LlamaForCausalLM'' \<or> a = ''MistralForCausalLM'' \<or> a = ''MixtralForCausalLM''
          then Inr Llama
          else if a = ''GemmaForCausalLM'' then Inr Gemma
          else if a = ''PhiForCausalLM'' \<or> a = ''Phi3ForCausalLM'' then Inr Phi
          else Inl UnsupportedArchitecture)"

text \<open>
  \<open>return llm.WriteGGUF(ws, c.KV(v, sv), c.Tensors(ts))\<close>, with the two methods of the
  selected converter as arguments, and the sorting procedure that \<open>WriteGGUF\<close> calls.
\<close>

definition Convert_write ::
    "(32 word \<Rightarrow> 64 word) \<Rightarrow> (Tensor list \<Rightarrow> Tensor list) \<Rightarrow> byte list
       \<Rightarrow> (Vocabulary \<Rightarrow> SpecialVocabulary list \<Rightarrow> error + KV)
       \<Rightarrow> ('t list \<Rightarrow> Tensor list) \<Rightarrow> Vocabulary \<Rightarrow> SpecialVocabulary list \<Rightarrow> 't list
       \<Rightarrow> error + byte list" where
  "Convert_write bpe srt ws KVf Tensorsf v sv ts =
     bnd (KVf v sv) (\<lambda>m. WriteGGUF bpe srt ws m (Tensorsf ts))"

section \<open>Predicates and inputs used in the statements\<close>

text \<open>The value types that the specification lists as writable (section 4.3).\<close>

fun write_supported :: "gval \<Rightarrow> bool" where
  "write_supported (U32 x) = True"
| "write_supported (F32 x) = True"
| "write_supported (Bool b) = True"
| "write_supported (Str s) = True"
| "write_supported (ArrI32 xs) = True"
| "write_supported (ArrU32 xs) = True"
| "write_supported (ArrF32 xs) = True"
| "write_supported (ArrStr xs) = True"
| "write_supported v = False"

text \<open>A Llama configuration in which every hyperparameter is zero or absent.\<close>

definition zero_llama :: llama where
  "zero_llama = \<lparr>Architectures = [''LlamaForCausalLM''], VocabSize = 0,
     NLayers = 0, NumHiddenLayers = 0, NLayer = 0, MaxPositionEmbeddings = 0, NCtx = 0,
     HiddenSize = 0, NEmbd = 0, IntermediateSize = 0, NInner = 0, NumAttentionHeads = 0,
     NHead = 0, NumKeyValueHeads = 0, RopeTheta = 0, RMSNormEPS = 0, LayerNormEPS = 0,
     LayerNormEpsilon = 0, NormEpsilon = 0, NumLocalExperts = 0, NumExpertsPerToken = 0\<rparr>"

definition empty_vocabulary :: Vocabulary where
  "empty_vocabulary = \<lparr>Tokens = [], Scores = [], Types = [], Merges = []\<rparr>"

text \<open>
  Go's \<open>len\<close> is an \<open>int\<close>: the length of a string, slice or map is below \<open>2^63\<close>.
\<close>

definition go_len :: "nat \<Rightarrow> bool" where
  "go_len n = (int n < 2 ^ 63)"

text \<open>
  A value as the reader hands it back: a typed slice comes back as \<open>[]any\<close> holding its
  elements, every other value as itself.
\<close>

fun as_read :: "gval \<Rightarrow> gval" where
  "as_read (ArrI32 xs) = ArrAny (map I32 xs)"
| "as_read (ArrU32 xs) = ArrAny (map U32 xs)"
| "as_read (ArrF32 xs) = ArrAny (map F32 xs)"
| "as_read (ArrStr xs) = ArrAny (map Str xs)"
| "as_read v = v"

text \<open>Well-formed writer input: what the Go types of the arguments guarantee.\<close>

fun wf_value :: "gval \<Rightarrow> bool" where
  "wf_value (Str s) = go_len (length s)"
| "wf_value (ArrI32 xs) = go_len (length xs)"
| "wf_value (ArrU32 xs) = go_len (length xs)"
| "wf_value (ArrF32 xs) = go_len (length xs)"
| "wf_value (ArrStr xs) = (go_len (length xs) \<and> list_all (\<lambda>s. go_len (length s)) xs)"
| "wf_value v = True"

definition wf_entry :: "string \<times> gval \<Rightarrow> bool" where
  "wf_entry e = (go_len (length (fst e)) \<and> write_supported (snd e) \<and> wf_value (snd e))"

definition wf_kv :: "KV \<Rightarrow> bool" where
  "wf_kv m = (distinct (map fst m) \<and> go_len (length m) \<and> list_all wf_entry m)"

text \<open>
  A tensor the writer can emit and the reader can take back: a name of a Go length, a
  number of dimensions that fits the 32-bit field, and a payload provider that succeeds.
\<close>

definition has_payload :: "Tensor \<Rightarrow> bool" where
  "has_payload t = (case WriterTo t of Some (Inr bs) \<Rightarrow> True | _ \<Rightarrow> False)"

definition payload :: "Tensor \<Rightarrow> byte list" where
  "payload t = (case WriterTo t of Some (Inr bs) \<Rightarrow> bs | _ \<Rightarrow> [])"

definition wf_tensor :: "Tensor \<Rightarrow> bool" where
  "wf_tensor t = (go_len (length (Name t)) \<and> int (length (Shape t)) < 2 ^ 32 \<and> has_payload t)"

definition wf_tensors :: "Tensor list \<Rightarrow> bool" where
  "wf_tensors ts = (go_len (length ts) \<and> list_all wf_tensor ts)"

text \<open>
  The contract of \<open>slices.SortFunc\<close> with the comparator of \<open>WriteGGUF\<close>: the slice
  after the call holds the elements it held before, in ascending order of name. Nothing
  is said about the order of tensors that share a name.
\<close>

definition sorts_by_Name :: "(Tensor list \<Rightarrow> Tensor list) \<Rightarrow> bool" where
  "sorts_by_Name srt = (\<forall>ts. mset (srt ts) = mset ts \<and> sorted (map Name (srt ts)))"

text \<open>The offsets the writer assigns: the running sum of the sizes, from \<open>s\<close>.\<close>

fun offsets :: "(32 word \<Rightarrow> 64 word) \<Rightarrow> 64 word \<Rightarrow> Tensor list \<Rightarrow> 64 word list" where
  "offsets bpe s [] = []"
| "offsets bpe s (t # ts) = s # offsets bpe (s + Size bpe t) ts"

text \<open>
  The file layout of section 6 of the specification, piece by piece: the value of a
  metadata entry (type code, then payload), an entry, and a tensor descriptor with its
  dimensions in reversed order.
\<close>

fun layout_value :: "gval \<Rightarrow> byte list" where
  "layout_value (U32 x) = le32 ggufTypeUint32 @ le32 x"
| "layout_value (F32 x) = le32 ggufTypeFloat32 @ le32 x"
| "layout_value (Bool b) = le32 ggufTypeBool @ le_bool b"
| "layout_value (Str s) = le32 ggufTypeString @ le64 (of_nat (length s)) @ bytes_of_string s"
| "layout_value (ArrI32 xs) =
     le32 ggufTypeArray @ le32 ggufTypeInt32 @ le64 (of_nat (length xs)) @ concat (map le32 xs)"
| "layout_value (ArrU32 xs) =
     le32 ggufTypeArray @ le32 ggufTypeUint32 @ le64 (of_nat (length xs)) @ concat (map le32 xs)"
| "layout_value (ArrF32 xs) =
     le32 ggufTypeArray @ le32 ggufTypeFloat32 @ le64 (of_nat (length xs)) @ concat (map le32 xs)"
| "layout_value (ArrStr xs) =
     le32 ggufTypeArray @ le32 ggufTypeString @ le64 (of_nat (length xs))
       @ concat (map (\<lambda>e. le64 (of_nat (length e)) @ bytes_of_string e) xs)"
| "layout_value v = []"

definition layout_entry :: "string \<times> gval \<Rightarrow> byte list" where
  "layout_entry e =
     le64 (of_nat (length (fst e))) @ bytes_of_string (fst e) @ layout_value (snd e)"

definition layout_descriptor :: "Tensor \<Rightarrow> 64 word \<Rightarrow> byte list" where
  "layout_descriptor t off =
     le64 (of_nat (length (Name t))) @ bytes_of_string (Name t)
       @ le32 (of_nat (length (Shape t))) @ concat (map le64 (rev (Shape t)))
       @ le32 (Kind t) @ le64 off"

text \<open>
  The metadata entries in the order the writer emits them, and the head of the file for
  a tensor list \<open>ts\<close> that is already in the order of writing (the slice after sorting).
\<close>

definition written_entries :: "KV \<Rightarrow> (string \<times> gval) list" where
  "written_entries m = map (\<lambda>k. (k, kv_get m k)) (sort (map fst m))"

definition layout_head :: "(32 word \<Rightarrow> 64 word) \<Rightarrow> KV \<Rightarrow> Tensor list \<Rightarrow> byte list" where
  "layout_head bpe m ts =
     bytes_of_string ''GGUF'' @ le32 3 @ le64 (of_nat (length ts)) @ le64 (of_nat (length m))
       @ concat (map layout_entry (written_entries m))
       @ concat (map2 layout_descriptor ts (offsets bpe 0 ts))"

text \<open>
  A descriptor as the reader returns it, and the list it returns for the tensors \<open>ts\<close>
  in the order of writing.
\<close>

definition decoded_tensor :: "Tensor \<Rightarrow> 64 word \<Rightarrow> Tensor" where
  "decoded_tensor t off =
     \<lparr>Name = Name t, Kind = Kind t, Offset = off, Shape = rev (Shape t), WriterTo = None\<rparr>"

definition decoded_tensors :: "(32 word \<Rightarrow> 64 word) \<Rightarrow> Tensor list \<Rightarrow> Tensor list" where
  "decoded_tensors bpe ts =
     map2 decoded_tensor ts (offsets bpe 0 ts)"

text \<open>
  \<open>pad(offset, align)\<close> of the specification at the writer's alignment of 32, and the
  payload region: each payload in turn, followed by zero bytes up to the next multiple of
  32 of the absolute position.
\<close>

definition padding32 :: "nat \<Rightarrow> nat" where
  "padding32 n = (32 - n mod 32) mod 32"

fun payload_region :: "nat \<Rightarrow> Tensor list \<Rightarrow> byte list" where
  "payload_region pos [] = []"
| "payload_region pos (t # ts) =
     payload t @ replicate (padding32 (pos + length (payload t))) 0
       @ payload_region
           (pos + length (payload t) + padding32 (pos + length (payload t))) ts"

definition layout_file :: "(32 word \<Rightarrow> 64 word) \<Rightarrow> KV \<Rightarrow> Tensor list \<Rightarrow> byte list" where
  "layout_file bpe m ts =
     layout_head bpe m ts @ replicate (padding32 (length (layout_head bpe m ts))) 0
       @ payload_region
           (length (layout_head bpe m ts) + padding32 (length (layout_head bpe m ts)))
           ts"

text \<open>
  The metadata map as the reader builds it from the written entries, with the parameter
  count stored last, and the model it returns.
\<close>

definition decoded_kv :: "KV \<Rightarrow> 64 word \<Rightarrow> KV" where
  "decoded_kv m ps =
     AList.update ''general.parameter_count'' (U64 ps)
       (foldl (\<lambda>m e. AList.update (fst e) (as_read (snd e)) m) [] (written_entries m))"

definition decoded_model :: "(32 word \<Rightarrow> 64 word) \<Rightarrow> KV \<Rightarrow> Tensor list \<Rightarrow> gguf" where
  "decoded_model bpe m ts =
     \<lparr>Version = 3, NumTensor = of_nat (length ts), NumKV = of_nat (length m),
      kv = decoded_kv m (sum_list (map parameters ts)),
      tensors = decoded_tensors bpe ts,
      gparameters = sum_list (map parameters ts)\<rparr>"

text \<open>
  Concrete inputs for the examples: a table of four bytes per element, a metadata map, a
  tensor list out of name order, a map that already holds \<open>general.parameter_count\<close>
  and a typed array, a tensor list whose first tensor has an empty dimension, and a tensor
  list whose sizes (\<open>2^61\<close> elements of four bytes each, twice) add up to \<open>2^64\<close>.
\<close>

definition four_bytes :: "32 word \<Rightarrow> 64 word" where
  "four_bytes k = 4"

definition example_kv :: KV where
  "example_kv = [(''general.file_type'', U32 1), (''general.architecture'', Str ''phi'')]"

definition example_tensors :: "Tensor list" where
  "example_tensors =
     [\<lparr>Name = ''b.weight'', Kind = 0, Offset = 0, Shape = [2, 3], WriterTo = Some (Inr [1, 2, 3])\<rparr>,
      \<lparr>Name = ''a.weight'', Kind = 0, Offset = 0, Shape = [5], WriterTo = Some (Inr [])\<rparr>]"

definition colliding_kv :: KV where
  "colliding_kv = [(''general.parameter_count'', U32 7),
                   (''tokenizer.ggml.token_type'', ArrI32 [1])]"

definition empty_dim_tensors :: "Tensor list" where
  "empty_dim_tensors =
     [\<lparr>Name = ''a'', Kind = 0, Offset = 0, Shape = [0], WriterTo = Some (Inr [])\<rparr>,
      \<lparr>Name = ''b'', Kind = 0, Offset = 0, Shape = [1], WriterTo = Some (Inr [1, 2, 3, 4])\<rparr>]"

definition wrapping_tensors :: "Tensor list" where
  "wrapping_tensors =
     [\<lparr>Name = ''a'', Kind = 0, Offset = 0, Shape = [2305843009213693952], WriterTo = Some (Inr [])\<rparr>,
      \<lparr>Name = ''b'', Kind = 0, Offset = 0, Shape = [2305843009213693952], WriterTo = Some (Inr [])\<rparr>,
      \<lparr>Name = ''c'', Kind = 0, Offset = 0, Shape = [1], WriterTo = Some (Inr [1, 2, 3, 4])\<rparr>]"

text \<open>
  The reader's seeks stay inside the \<open>int64\<close> range: a non-zero alignment, sizes that
  are not negative as \<open>int64\<close>, and a final position below \<open>2^63\<close>.
\<close>

definition seeks_fit :: "(32 word \<Rightarrow> 64 word) \<Rightarrow> int \<Rightarrow> Tensor list \<Rightarrow> nat \<Rightarrow> bool" where
  "seeks_fit bpe a ts pos =
     (0 < a \<and> list_all (\<lambda>t. 0 \<le> sint (Size bpe t)) ts
      \<and> int pos + a + sum_list (map (\<lambda>t. sint (Size bpe t) + a) ts) < 2 ^ 63)"

text \<open>Proof device: the first \<open>n\<close> bytes of a word, low byte first.\<close>

primrec le_bytes :: "nat \<Rightarrow> 'a::len word \<Rightarrow> byte list" where
  "le_bytes 0 x = []"
| "le_bytes (Suc n) x = ucast x # le_bytes n (drop_bit 8 x)"

section \<open>The version 1 string reader\<close>

lemma sint_nonneg: "0 \<le> sint (w :: 'a::len word) \<Longrightarrow> sint w = uint w"
proof -
  assume "0 \<le> sint w"
  then have nb: "\<not> bit w (LENGTH('a) - Suc 0)" by (simp add: bit_last_iff)
  have "signed_take_bit (LENGTH('a) - Suc 0) (uint w) = take_bit (LENGTH('a) - Suc 0) (uint w)"
    by (rule signed_take_bit_eq_if_positive) (use nb in \<open>simp add: bit_uint_iff\<close>)
  also have "\<dots> = uint w"
  proof (rule bit_eqI)
    fix n
    have "bit w n \<Longrightarrow> n < LENGTH('a) - Suc 0"
    proof -
      assume b: "bit w n"
      then have "n < LENGTH('a)" by (rule bit_imp_le_length)
      moreover have "n \<noteq> LENGTH('a) - Suc 0" using b nb by auto
      ultimately show ?thesis by linarith
    qed
    then show "bit (take_bit (LENGTH('a) - Suc 0) (uint w)) n = bit (uint w) n"
      by (auto simp: bit_take_bit_iff bit_uint_iff)
  qed
  finally show ?thesis by (simp add: sint_uint)
qed

lemma nat_uint_pred: "nat (uint (len :: 64 word) - 1) = unat len - Suc 0"
  unfolding uint_nat by linarith

text \<open>
  Claim C10, as amended. Let the eight bytes of the length prefix be read as \<open>len\<close>, with
  \<open>int64(len)\<close> not negative (\<open>len < 2^63\<close>). Then \<open>readGGUFV1String\<close> never panics
  for \<open>len \<ge> 1\<close>: when the stream holds \<open>len\<close> more bytes it returns them without the
  last one, whatever that byte is, and otherwise it returns the error of the short copy.
  For \<open>len = 0\<close> the truncation index is \<open>-1\<close> and the panic of \<open>Buffer.Truncate\<close> is
  reached.
\<close>

theorem readGGUFV1String_spec:
  assumes "readGGUF bo 8 file pos = Inr (len :: 64 word, pos1)" and "0 \<le> sint len"
  shows "readGGUFV1String bo file pos =
     (if len = 0 then Inl (Panic ''bytes.Buffer: truncation out of range'')
      else if unat len \<le> length (drop pos1 file)
        then Inr (string_of_bytes (butlast (take (unat len) (drop pos1 file))), pos1 + unat len)
      else Inl EOF)"
proof -
  have s: "sint len = uint len"
    using assms(2) by (rule sint_nonneg)
  have z: "(len = 0) = (unat len = 0)" by (simp add: unat_eq_0)
  show ?thesis
    using assms(1)
    by (auto simp: readGGUFV1String_def bnd_def copy_n_def s z nat_uint_pred
        butlast_conv_take min_def)
qed

theorem readGGUFV1String_spec_witness:
  "readGGUF LittleEndian 8 (le64 3 @ [0x68, 0x69, 0]) 0 = Inr (3 :: 64 word, 8)
   \<and> 0 \<le> sint (3 :: 64 word)
   \<and> readGGUFV1String LittleEndian (le64 3 @ [0x68, 0x69, 0]) 0 = Inr (''hi'', 11)"
proof -
  have h1: "readGGUF LittleEndian 8 (le64 3 @ [0x68, 0x69, 0]) 0 = Inr (3 :: 64 word, 8)"
    by code_simp
  have h2: "0 \<le> sint (3 :: 64 word)" by simp
  have u: "unat (3 :: 64 word) = 3" by simp
  have e: "string_of_bytes (butlast (take 3 (drop 8 (le64 3 @ [0x68, 0x69, 0])))) = ''hi''"
    by code_simp
  have l: "3 \<le> length (drop 8 (le64 3 @ [0x68, 0x69, 0]))" by code_simp
  have t: "8 + (3 :: nat) = 11" by simp
  have nz: "(3 :: 64 word) \<noteq> 0" by simp
  note r = readGGUFV1String_spec [OF h1 h2]
  have "readGGUFV1String LittleEndian (le64 3 @ [0x68, 0x69, 0]) 0 = Inr (''hi'', 11)"
    unfolding r u using nz l e t by (simp only: if_False if_True)
  with h1 h2 show ?thesis by (simp only: simp_thms)
qed

text \<open>
  Claim C10 as stated fails: a recorded length of \<open>2^63\<close> is at least 1, its conversion
  \<open>int64(length)\<close> is negative, nothing is copied, and the truncation panics.
\<close>

theorem readGGUFV1String_huge_length_panics:
  "1 \<le> unat (0x8000000000000000 :: 64 word) \<and>
   readGGUF LittleEndian 8 (le64 0x8000000000000000 @ [0x68, 0x69, 0]) 0
     = Inr (0x8000000000000000 :: 64 word, 8) \<and>
   readGGUFV1String LittleEndian (le64 0x8000000000000000 @ [0x68, 0x69, 0]) 0
     = Inl (Panic ''bytes.Buffer: truncation out of range'')"
  by (simp add: readGGUFV1String_def readGGUF_def read_full_def bnd_def le64_def
      decode_word_def copy_n_def)

section \<open>Special tokens and the tokenizer probe\<close>

text \<open>
  Claim C5 at the seven types that \<open>SpecialTypes\<close> declares: \<open>Key\<close> maps \<open>bos\<close>,
  \<open>eos\<close>, \<open>unk\<close> and \<open>pad\<close> as the claim says, and panics on \<open>sep\<close>, \<open>cls\<close> and
  \<open>mask\<close>; \<open>Parameters.KV\<close> on a resolved \<open>sep\<close> entry panics with it and emits no key.
\<close>

theorem Key_SpecialTypes:
  "map (\<lambda>t. Key \<lparr>Type = t, ID = 2, Content = ''x'', AddToken = False\<rparr>) SpecialTypes =
     [Inr ''bos'', Inr ''eos'', Inr ''unknown'', Inl (Panic ''unknown special vocabulary type''),
      Inr ''padding'', Inl (Panic ''unknown special vocabulary type''),
      Inl (Panic ''unknown special vocabulary type'')]
   \<and> Parameters_KV v [\<lparr>Type = ''sep'', ID = 2, Content = ''x'', AddToken = False\<rparr>]
       = Inl (Panic ''unknown special vocabulary type'')"
  by (simp add: Key_def SpecialTypes_def Parameters_KV_def bnd_def)

text \<open>
  Claim C6 in a directory that holds both tokenizer files (every pattern matches): when the
  map iteration meets \<open>tokenizer.model\<close> first the SentencePiece parser runs, and when it
  meets \<open>tokenizer.json\<close> first the BPE parser runs. In a directory that holds neither the
  result is \<open>unknown tensor format\<close> in both orders.
\<close>

theorem parseVocabulary_order:
  "parseVocabulary (\<lambda>d p. Inr [d @ ''/'' @ p]) parse patterns d = parse parseSentencePiece d \<and>
   parseVocabulary (\<lambda>d p. Inr [d @ ''/'' @ p]) parse (rev patterns) d
     = parse parseVocabularyFromTokenizer d \<and>
   parseVocabulary (\<lambda>d p. Inr []) parse patterns d = Inl UnknownTensorFormat \<and>
   parseVocabulary (\<lambda>d p. Inr []) parse (rev patterns) d = Inl UnknownTensorFormat"
  by (simp add: patterns_def)

section \<open>Vocabulary padding\<close>

lemma foldl_pad_step:
  "foldl pad_step v [a..<a + n] =
     v\<lparr>Tokens := Tokens v @ map dummy_token [a..<a + n],
       Scores := Scores v @ replicate n 0xBF800000,
       Types := Types v @ replicate n tokenTypeUserDefined\<rparr>"
proof (induction n arbitrary: v)
  case 0
  then show ?case by simp
next
  case (Suc n)
  show ?case
    using Suc [of v]
    by (simp add: pad_step_def replicate_append_same)
qed

lemma foldl_pad_step0:
  "foldl pad_step v [0..<n] =
     v\<lparr>Tokens := Tokens v @ map dummy_token [0..<n],
       Scores := Scores v @ replicate n 0xBF800000,
       Types := Types v @ replicate n tokenTypeUserDefined\<rparr>"
  using foldl_pad_step [of v 0 n] by simp

lemma pad_vocabulary_unat:
  "pad_vocabulary n v =
     (if length (Tokens v) < unat n
      then foldl pad_step v [0..<unat n - length (Tokens v)]
      else v)"
proof -
  have a: "(int (length (Tokens v)) < uint n) = (length (Tokens v) < unat n)"
    unfolding uint_nat by linarith
  have b: "nat (uint n - int (length (Tokens v))) = unat n - length (Tokens v)"
    unfolding uint_nat by linarith
  show ?thesis
    unfolding pad_vocabulary_def Let_def a b ..
qed

text \<open>
  Claim C8. When \<open>vocab_size\<close> exceeds the number of tokens, \<open>Convert\<close> appends exactly
  \<open>vocab_size - len(tokens)\<close> entries, the \<open>i\<close>-th with the token
  \<open>Sprintf("<dummy%05d>", i)\<close>, the score \<open>-1\<close> and the type \<open>UserDefined\<close>; otherwise
  the vocabulary is unchanged. A vocabulary whose three sequences are parallel stays so.
\<close>

theorem pad_vocabulary_spec:
  "pad_vocabulary n v =
     (if length (Tokens v) < unat n
      then v\<lparr>Tokens := Tokens v @ map dummy_token [0..<unat n - length (Tokens v)],
             Scores := Scores v @ replicate (unat n - length (Tokens v)) 0xBF800000,
             Types := Types v @ replicate (unat n - length (Tokens v)) tokenTypeUserDefined\<rparr>
      else v)
   \<and> (length (Scores v) = length (Tokens v) \<and> length (Types v) = length (Tokens v) \<longrightarrow>
        length (Scores (pad_vocabulary n v)) = length (Tokens (pad_vocabulary n v)) \<and>
        length (Types (pad_vocabulary n v)) = length (Tokens (pad_vocabulary n v)))"
  by (simp add: pad_vocabulary_unat foldl_pad_step0)

theorem pad_vocabulary_spec_witness:
  "length (Scores \<lparr>Tokens = [''a'', ''b'', ''c''], Scores = [0, 0, 0], Types = [1, 1, 1], Merges = []\<rparr>) = 3
   \<and> pad_vocabulary 5 \<lparr>Tokens = [''a'', ''b'', ''c''], Scores = [0, 0, 0], Types = [1, 1, 1], Merges = []\<rparr>
       = \<lparr>Tokens = [''a'', ''b'', ''c'', ''<dummy00000>'', ''<dummy00001>''],
          Scores = [0, 0, 0, 0xBF800000, 0xBF800000],
          Types = [1, 1, 1, 4, 4], Merges = []\<rparr>"
proof -
  have d: "map dummy_token [0..<2] = [''<dummy00000>'', ''<dummy00001>'']"
    by code_simp
  have u: "unat (5 :: 32 word) - 3 = 2" by simp
  have r: "replicate 2 x = [x, x]" for x :: "32 word"
    by (simp add: numeral_2_eq_2)
  show ?thesis
    using pad_vocabulary_spec [of 5 "\<lparr>Tokens = [''a'', ''b'', ''c''], Scores = [0, 0, 0],
      Types = [1, 1, 1], Merges = []\<rparr>"]
    by (simp add: d u r)
qed

section \<open>The value types the writer accepts\<close>

lemma ggufWriteKV_ok: "write_supported v \<Longrightarrow> \<exists>ws'. ggufWriteKV ws k v = Inr ws'"
  by (cases v) (simp_all add: ggufWriteKV_def Let_def)

lemma ggufWriteKV_improper: "\<not> write_supported v \<Longrightarrow> ggufWriteKV ws k v = Inl (ImproperType k)"
  by (cases v) (simp_all add: ggufWriteKV_def Let_def)

lemma write_kvs_improper:
  "find (\<lambda>key. \<not> write_supported (kv_get m key)) keys = Some k
     \<Longrightarrow> write_kvs ws m keys = Inl (ImproperType k)"
proof (induction keys arbitrary: ws)
  case Nil
  then show ?case by simp
next
  case (Cons key keys)
  show ?case
  proof (cases "write_supported (kv_get m key)")
    case True
    then obtain ws' where w: "ggufWriteKV ws key (kv_get m key) = Inr ws'"
      using ggufWriteKV_ok by blast
    from True Cons.prems
    have "find (\<lambda>key. \<not> write_supported (kv_get m key)) keys = Some k" by simp
    then have "write_kvs ws' m keys = Inl (ImproperType k)" by (rule Cons.IH)
    with w show ?thesis by (simp add: bnd_def)
  next
    case False
    with Cons.prems have "key = k" by simp
    with False show ?thesis by (simp add: ggufWriteKV_improper bnd_def)
  qed
qed

text \<open>
  Claim C4. \<open>ggufWriteKV\<close> succeeds on a value of one of the eight listed types and on no
  other: on any other value it returns the improper-type error that names the key. The
  writer stops at the first key, in sorted order, whose value is of another type, and
  returns that error.
\<close>

theorem ggufWriteKV_supported:
  "(write_supported v \<longrightarrow> (\<exists>ws'. ggufWriteKV ws k v = Inr ws'))
   \<and> (\<not> write_supported v \<longrightarrow> ggufWriteKV ws k v = Inl (ImproperType k))
   \<and> (find (\<lambda>key. \<not> write_supported (kv_get m key)) (sort (map fst m)) = Some k' \<longrightarrow>
        WriteGGUF bpe srt ws m ts = Inl (ImproperType k'))"
  by (simp add: ggufWriteKV_ok ggufWriteKV_improper write_kvs_improper WriteGGUF_def bnd_def)

theorem ggufWriteKV_supported_witness:
  "write_supported (U32 1) \<and> \<not> write_supported (U64 1)
   \<and> find (\<lambda>key. \<not> write_supported (kv_get [(''b'', U64 1), (''a'', U32 1), (''c'', I32 0)] key))
        (sort (map fst [(''b'', U64 1), (''a'', U32 1), (''c'', I32 0)])) = Some ''b''
   \<and> (\<exists>ws'. ggufWriteKV [] ''a'' (U32 1) = Inr ws')
   \<and> ggufWriteKV [] ''b'' (U64 1) = Inl (ImproperType ''b'')
   \<and> WriteGGUF (\<lambda>k. 4) (sort_key Name) [] [(''b'', U64 1), (''a'', U32 1), (''c'', I32 0)] []
       = Inl (ImproperType ''b'')"
proof -
  have f: "find (\<lambda>key. \<not> write_supported (kv_get [(''b'', U64 1), (''a'', U32 1), (''c'', I32 0)] key))
        (sort (map fst [(''b'', U64 1), (''a'', U32 1), (''c'', I32 0)])) = Some ''b''"
    by (simp add: kv_get_def)
  show ?thesis
    using ggufWriteKV_supported [of "U32 1" "[]" "''a''" "[(''b'', U64 1), (''a'', U32 1), (''c'', I32 0)]"
        "''b''" "\<lambda>k. 4" "sort_key Name" "[]"]
      ggufWriteKV_supported [of "U64 1" "[]" "''b''" "[(''b'', U64 1), (''a'', U32 1), (''c'', I32 0)]"
        "''b''" "\<lambda>k. 4" "sort_key Name" "[]"] f
    by simp
qed

section \<open>The metadata of the Llama adapter\<close>

lemma add_special_other_keys:
  "add_special m svs = Inr m' \<Longrightarrow> map_of m' (CHR ''l'' # r) = map_of m (CHR ''l'' # r)"
proof (induction svs arbitrary: m)
  case Nil
  then show ?case by simp
next
  case (Cons sv svs)
  from Cons.prems obtain k1 where k: "Key sv = Inr k1"
    by (cases "Key sv") (simp_all add: bnd_def)
  from Cons.prems k have
    "add_special
       (AList.update (''tokenizer.ggml.add_'' @ k1 @ ''_token'') (Bool (AddToken sv))
         (AList.update (''tokenizer.ggml.'' @ k1 @ ''_token_id'') (U32 (of_int (ID sv))) m))
       svs = Inr m'"
    by (simp add: bnd_def)
  then have "map_of m' (CHR ''l'' # r) =
     map_of (AList.update (''tokenizer.ggml.add_'' @ k1 @ ''_token'') (Bool (AddToken sv))
         (AList.update (''tokenizer.ggml.'' @ k1 @ ''_token_id'') (U32 (of_int (ID sv))) m))
       (CHR ''l'' # r)"
    by (rule Cons.IH)
  then show ?case by (simp add: update_conv')
qed

lemma Parameters_KV_no_llama_key:
  "Parameters_KV v svs = Inr m \<Longrightarrow> map_of m (CHR ''l'' # r) = None"
  unfolding Parameters_KV_def by (drule add_special_other_keys [where r = r]) simp

lemma map_of_set_if_same:
  "map_of (set_if c k v m) k = (if c then Some v else map_of m k)"
  by (simp add: set_if_def update_conv')

lemma map_of_set_if_other:
  "k \<noteq> k' \<Longrightarrow> map_of (set_if c k v m) k' = map_of m k'"
  by (simp add: set_if_def update_conv')

lemma map_of_update_same: "map_of (AList.update k v m) k = Some v"
  by (simp add: update_conv')

lemma map_of_update_other: "k \<noteq> k' \<Longrightarrow> map_of (AList.update k v m) k' = map_of m k'"
  by (simp add: update_conv')

lemma f32_zero_not_gt: "f32_is_zero x \<Longrightarrow> \<not> f32_gt_zero x"
  by (simp add: f32_gt_zero_def)

lemma cmp_Or_f32_zero:
  "f32_is_zero a \<Longrightarrow> f32_is_zero b \<Longrightarrow> f32_is_zero c \<Longrightarrow> \<not> f32_gt_zero (cmp_Or_f32 [a, b, c])"
  by (simp add: f32_gt_zero_def f32_is_zero_def)

lemma cmp_Or_zero2: "cmp_Or [0, 0] = 0"
  by simp

text \<open>
  Claim C7, as amended. In the map that the Llama adapter's \<open>KV\<close> returns,
  \<open>llama.block_count\<close> and \<open>llama.vocab_size\<close> are always present (with the value zero
  when the parameters are zero or absent). Every other hyperparameter key is omitted when
  its source parameters are zero or absent; \<open>llama.rope.dimension_count\<close> is omitted when
  the head count is.
\<close>

theorem llama_KV_omits_zero:
  assumes "llama_KV p v svs = Inr m"
  shows "map_of m ''llama.block_count'' = Some (U32 (cmp_Or [NLayers p, NumHiddenLayers p, NLayer p]))
   \<and> map_of m ''llama.vocab_size'' = Some (U32 (VocabSize p))
   \<and> (MaxPositionEmbeddings p = 0 \<and> NCtx p = 0 \<longrightarrow> map_of m ''llama.context_length'' = None)
   \<and> (HiddenSize p = 0 \<and> NEmbd p = 0 \<longrightarrow> map_of m ''llama.embedding_length'' = None)
   \<and> (IntermediateSize p = 0 \<and> NInner p = 0 \<longrightarrow> map_of m ''llama.feed_forward_length'' = None)
   \<and> (NumAttentionHeads p = 0 \<and> NHead p = 0 \<longrightarrow>
        map_of m ''llama.attention.head_count'' = None
        \<and> map_of m ''llama.rope.dimension_count'' = None)
   \<and> (NumKeyValueHeads p = 0 \<longrightarrow> map_of m ''llama.attention.head_count_kv'' = None)
   \<and> (f32_is_zero (RopeTheta p) \<longrightarrow> map_of m ''llama.attention.rope_freq_base'' = None)
   \<and> (f32_is_zero (RMSNormEPS p) \<longrightarrow>
        map_of m ''llama.attention.layer_norm_rms_epsilon'' = None)
   \<and> (f32_is_zero (LayerNormEPS p) \<and> f32_is_zero (LayerNormEpsilon p)
        \<and> f32_is_zero (NormEpsilon p) \<longrightarrow>
        map_of m ''llama.attention.layer_norm_epsilon'' = None)
   \<and> (NumLocalExperts p = 0 \<longrightarrow> map_of m ''llama.attention.expert_count'' = None)
   \<and> (NumExpertsPerToken p = 0 \<longrightarrow> map_of m ''llama.attention.expert_used_count'' = None)"
proof -
  from assms obtain m0 where m0: "Parameters_KV v svs = Inr m0"
    by (cases "Parameters_KV v svs") (simp_all only: llama_KV_def bnd_def sum.case sum.distinct)
  note n = Parameters_KV_no_llama_key [OF m0]
  note e = assms [unfolded llama_KV_def bnd_def m0 sum.case Let_def sum.inject]
  have z: "\<not> f32_gt_zero (cmp_Or_f32 [a, b, c])"
    if "f32_is_zero a" "f32_is_zero b" "f32_is_zero c" for a b c
    using that by (rule cmp_Or_f32_zero)
  show ?thesis
    unfolding e [symmetric]
    by (intro conjI impI)
       (simp_all add: map_of_set_if_same map_of_set_if_other map_of_update_same
         map_of_update_other n f32_zero_not_gt z cmp_Or_zero2
         del: cmp_Or.simps cmp_Or_f32.simps)
qed

text \<open>
  Claim C7 as stated fails: with every hyperparameter zero the map still holds
  \<open>llama.block_count\<close>, with the value zero.
\<close>

theorem llama_KV_block_count_zero:
  "(case llama_KV zero_llama empty_vocabulary [] of
      Inl e \<Rightarrow> None
    | Inr m \<Rightarrow> map_of m ''llama.block_count'') = Some (U32 0)"
  by (simp add: llama_KV_def Parameters_KV_def bnd_def zero_llama_def empty_vocabulary_def
      set_if_def update_conv' f32_gt_zero_def f32_is_zero_def)

theorem llama_KV_omits_zero_witness:
  "(\<exists>m. llama_KV zero_llama empty_vocabulary [] = Inr m
     \<and> map_of m ''llama.vocab_size'' = Some (U32 0)
     \<and> map_of m ''llama.context_length'' = None
     \<and> map_of m ''llama.attention.rope_freq_base'' = None
     \<and> map_of m ''llama.attention.layer_norm_epsilon'' = None)"
proof -
  obtain m where m: "llama_KV zero_llama empty_vocabulary [] = Inr m"
    by (simp add: llama_KV_def Parameters_KV_def bnd_def zero_llama_def empty_vocabulary_def
        set_if_def f32_gt_zero_def f32_is_zero_def)
  have z: "f32_is_zero 0" by (simp add: f32_is_zero_def)
  show ?thesis
    using llama_KV_omits_zero [OF m] m z
    by (simp add: zero_llama_def)
qed

section \<open>Primitive codec: reading back what was written\<close>

lemma le_word_le_bytes: "(le_word (le_bytes n x) :: 'a::len word) = take_bit (8 * n) x"
proof (induction n arbitrary: x)
  case 0
  then show ?case by simp
next
  case (Suc n)
  show ?case
    apply (simp only: le_bytes.simps le_word.simps Suc)
    apply (rule bit_word_eqI)
    apply (auto simp: bit_simps)
    done
qed

lemma le16_le_bytes: "le16 x = le_bytes (Suc (Suc 0)) x"
  by (simp add: le16_def)

lemma le32_le_bytes: "le32 x = le_bytes (Suc (Suc (Suc (Suc 0)))) x"
  by (simp add: le32_def)

lemma le64_le_bytes: "le64 x = le_bytes (Suc (Suc (Suc (Suc (Suc (Suc (Suc (Suc 0)))))))) x"
  by (simp add: le64_def)

lemma le_word_le32 [simp]: "le_word (le32 x) = x"
  by (simp only: le32_le_bytes le_word_le_bytes) (simp add: take_bit_word_eq_self)

lemma le_word_le64 [simp]: "le_word (le64 x) = x"
  by (simp only: le64_le_bytes le_word_le_bytes) (simp add: take_bit_word_eq_self)

lemma length_le32 [simp]: "length (le32 x) = 4"
  by (simp add: le32_def)

lemma length_le64 [simp]: "length (le64 x) = 8"
  by (simp add: le64_def)

lemma length_bytes_of_string [simp]: "length (bytes_of_string s) = length s"
  by (simp add: bytes_of_string_def)

lemma string_of_bytes_of_string [simp]: "string_of_bytes (bytes_of_string s) = s"
proof -
  have "char_of (unat (of_nat (of_char c) :: 8 word)) = c" for c :: char
    by (simp add: unat_of_nat take_bit_nat_eq_self_iff)
  then show ?thesis
    by (simp add: string_of_bytes_def bytes_of_string_def comp_def map_idI)
qed

lemma drop_after: "drop pos file = bs @ rest \<Longrightarrow> drop (pos + length bs) file = rest"
  by (metis add.commute append_eq_conv_conj drop_drop)

lemma read_full_at:
  "drop pos file = bs @ rest \<Longrightarrow> read_full file pos (length bs) = Inr (bs, pos + length bs)"
  by (simp add: read_full_def)

lemma readGGUF_le32:
  assumes "drop pos file = le32 x @ rest"
  shows "readGGUF LittleEndian 4 file pos = Inr (x, pos + 4)"
  using read_full_at [OF assms]
  by (simp add: readGGUF_def bnd_def decode_word_def)

lemma readGGUF_le64:
  assumes "drop pos file = le64 x @ rest"
  shows "readGGUF LittleEndian 8 file pos = Inr (x, pos + 8)"
  using read_full_at [OF assms]
  by (simp add: readGGUF_def bnd_def decode_word_def)

lemma readGGUF_bool_at:
  assumes "drop pos file = le_bool b @ rest"
  shows "readGGUF_bool file pos = Inr (b, pos + 1)"
  using read_full_at [OF assms]
  by (simp add: readGGUF_bool_def bnd_def le_bool_def split: if_splits)

lemma go_len_uint: "go_len n \<Longrightarrow> uint (of_nat n :: 64 word) = int n"
proof -
  assume "go_len n"
  then have "int n < 2 ^ 63" by (simp add: go_len_def)
  also have "(2 :: int) ^ 63 < 2 ^ 64" by simp
  finally have "int n < int (2 ^ 64)" by (simp only: of_nat_power of_nat_numeral)
  then have "n < 2 ^ 64" by (simp only: of_nat_less_iff)
  then have t: "take_bit 64 n = n" by (rule take_bit_nat_eq_self)
  have "uint (of_nat n :: 64 word) = int (take_bit LENGTH(64) n)"
    by (rule unsigned_of_nat)
  then show ?thesis using t by simp
qed

lemma go_len_sint: "go_len n \<Longrightarrow> sint (of_nat n :: 64 word) = int n"
proof -
  assume g: "go_len n"
  have "signed_take_bit 63 (int n) = int n"
    using g by (intro signed_take_bit_int_eq_self) (simp_all add: go_len_def)
  then show ?thesis
    by (simp add: sint_uint go_len_uint [OF g])
qed

lemma go_len_unat: "go_len n \<Longrightarrow> unat (of_nat n :: 64 word) = n"
  using go_len_uint [of n] by (metis nat_int unat_eq_nat_uint)

lemma copy_n_at:
  "drop pos file = bs @ rest \<Longrightarrow> copy_n file pos (int (length bs)) = Inr (bs, pos + length bs)"
  by (simp add: copy_n_def)

lemma readGGUFString_at:
  assumes "ver \<noteq> 1" and "go_len (length s)"
    and "drop pos file = le64 (of_nat (length s)) @ bytes_of_string s @ rest"
  shows "readGGUFString LittleEndian ver file pos = Inr (s, pos + 8 + length s)"
proof -
  have a: "readGGUF LittleEndian 8 file pos = Inr (of_nat (length s) :: 64 word, pos + 8)"
    using assms(3) by (rule readGGUF_le64)
  have d: "drop (pos + 8) file = bytes_of_string s @ rest"
    using drop_after [OF assms(3)] by simp
  have c: "copy_n file (pos + 8) (int (length s)) = Inr (bytes_of_string s, pos + 8 + length s)"
    using copy_n_at [OF d] by simp
  show ?thesis
    using assms(1) by (simp add: readGGUFString_def a bnd_def go_len_sint [OF assms(2)] c)
qed

section \<open>Metadata entries: the reader on the writer's bytes\<close>

lemma readGGUF_element_le32:
  assumes "drop pos file = le32 x @ rest"
  shows "readGGUF_element LittleEndian ver ggufTypeInt32 file pos = Inr (I32 x, pos + 4)"
    and "readGGUF_element LittleEndian ver ggufTypeUint32 file pos = Inr (U32 x, pos + 4)"
    and "readGGUF_element LittleEndian ver ggufTypeFloat32 file pos = Inr (F32 x, pos + 4)"
  using readGGUF_le32 [OF assms]
  by (simp_all add: readGGUF_element_def readGGUF_scalar_def tag_def bnd_def)

lemma readGGUF_element_string:
  assumes "ver \<noteq> 1" and "go_len (length s)"
    and "drop pos file = le64 (of_nat (length s)) @ bytes_of_string s @ rest"
  shows "readGGUF_element LittleEndian ver ggufTypeString file pos = Inr (Str s, pos + (8 + length s))"
  using readGGUFString_at [OF assms]
  by (simp add: readGGUF_element_def readGGUF_scalar_def tag_def bnd_def)

lemma read_elements_at:
  assumes step: "\<And>x pos rest. P x \<Longrightarrow> drop pos file = enc x @ rest \<Longrightarrow>
      readGGUF_element LittleEndian ver t file pos = Inr (box x, pos + length (enc x))"
  shows "list_all P xs \<Longrightarrow> drop pos file = concat (map enc xs) @ rest \<Longrightarrow>
     read_elements LittleEndian ver t file (length xs) pos a =
       Inr (a @ map box xs, pos + length (concat (map enc xs)))"
proof (induction xs arbitrary: pos a)
  case Nil
  then show ?case by simp
next
  case (Cons x xs)
  from Cons.prems have px: "P x" and pxs: "list_all P xs" by simp_all
  from Cons.prems(2) have d: "drop pos file = enc x @ (concat (map enc xs) @ rest)" by simp
  have e: "readGGUF_element LittleEndian ver t file pos = Inr (box x, pos + length (enc x))"
    using px d by (rule step)
  have d': "drop (pos + length (enc x)) file = concat (map enc xs) @ rest"
    using d by (rule drop_after)
  have "read_elements LittleEndian ver t file (length xs) (pos + length (enc x)) (a @ [box x]) =
       Inr ((a @ [box x]) @ map box xs, pos + length (enc x) + length (concat (map enc xs)))"
    using pxs d' by (rule Cons.IH)
  then show ?case by (simp add: e bnd_def add.assoc)
qed

lemma read_elements_le32:
  assumes "drop pos file = concat (map le32 xs) @ rest"
  shows "read_elements LittleEndian ver ggufTypeInt32 file (length xs) pos [] =
           Inr (map I32 xs, pos + length (concat (map le32 xs)))"
    and "read_elements LittleEndian ver ggufTypeUint32 file (length xs) pos [] =
           Inr (map U32 xs, pos + length (concat (map le32 xs)))"
    and "read_elements LittleEndian ver ggufTypeFloat32 file (length xs) pos [] =
           Inr (map F32 xs, pos + length (concat (map le32 xs)))"
proof -
  have t: "list_all (\<lambda>x. True) xs" by (simp add: list_all_iff)
  show "read_elements LittleEndian ver ggufTypeInt32 file (length xs) pos [] =
           Inr (map I32 xs, pos + length (concat (map le32 xs)))"
    using read_elements_at [where P = "\<lambda>x. True" and enc = le32 and box = I32 and a = "[]",
        OF _ t assms]
    by (simp add: readGGUF_element_le32)
  show "read_elements LittleEndian ver ggufTypeUint32 file (length xs) pos [] =
           Inr (map U32 xs, pos + length (concat (map le32 xs)))"
    using read_elements_at [where P = "\<lambda>x. True" and enc = le32 and box = U32 and a = "[]",
        OF _ t assms]
    by (simp add: readGGUF_element_le32)
  show "read_elements LittleEndian ver ggufTypeFloat32 file (length xs) pos [] =
           Inr (map F32 xs, pos + length (concat (map le32 xs)))"
    using read_elements_at [where P = "\<lambda>x. True" and enc = le32 and box = F32 and a = "[]",
        OF _ t assms]
    by (simp add: readGGUF_element_le32)
qed

lemma read_elements_string:
  assumes "ver \<noteq> 1" and "list_all (\<lambda>s. go_len (length s)) xs"
    and "drop pos file = concat (map (\<lambda>e. le64 (of_nat (length e)) @ bytes_of_string e) xs) @ rest"
  shows "read_elements LittleEndian ver ggufTypeString file (length xs) pos [] =
           Inr (map Str xs,
             pos + length (concat (map (\<lambda>e. le64 (of_nat (length e)) @ bytes_of_string e) xs)))"
  using read_elements_at [where P = "\<lambda>s. go_len (length s)"
      and enc = "\<lambda>e. le64 (of_nat (length e)) @ bytes_of_string e" and box = Str and a = "[]",
      OF _ assms(2) assms(3)]
  by (simp add: readGGUF_element_string [OF assms(1)])

lemma readGGUFArray_at:
  assumes "ver \<noteq> 1" and "go_len (length xs)"
    and "drop pos file = le32 t @ le64 (of_nat (length xs)) @ body @ rest"
    and "\<And>p. drop p file = body @ rest \<Longrightarrow>
           read_elements LittleEndian ver t file (length xs) p [] = Inr (ys, p + length body)"
  shows "readGGUFArray LittleEndian ver file pos = Inr (ys, pos + (12 + length body))"
proof -
  have a: "readGGUF LittleEndian 4 file pos = Inr (t, pos + 4)"
    using assms(3) by (rule readGGUF_le32)
  have d1: "drop (pos + 4) file = le64 (of_nat (length xs)) @ body @ rest"
    using drop_after [OF assms(3)] by simp
  have b: "readGGUF LittleEndian 8 file (pos + 4) = Inr (of_nat (length xs) :: 64 word, pos + 4 + 8)"
    using d1 by (rule readGGUF_le64)
  have d2: "drop (pos + 4 + 8) file = body @ rest"
    using drop_after [OF d1] by simp
  show ?thesis
    using assms(1) assms(4) [OF d2]
    by (simp add: readGGUFArray_def a b bnd_def go_len_unat [OF assms(2)] add.assoc)
qed

lemma readGGUF_value_at:
  assumes "write_supported v" and "wf_value v" and "ver \<noteq> 1"
    and "drop pos file = layout_value v @ rest"
  shows "bnd (readGGUF LittleEndian 4 file pos)
           (\<lambda>(t, pos2). readGGUF_value LittleEndian ver t file pos2)
         = Inr (as_read v, pos + length (layout_value v))"
proof (cases v)
  case (U32 x)
  with assms(4) have d: "drop pos file = le32 ggufTypeUint32 @ le32 x @ rest" by simp
  show ?thesis
    using readGGUF_le32 [OF d] readGGUF_le32 [OF drop_after [OF d, simplified]]
    by (simp add: U32 bnd_def readGGUF_value_def readGGUF_scalar_def tag_def)
next
  case (F32 x)
  with assms(4) have d: "drop pos file = le32 ggufTypeFloat32 @ le32 x @ rest" by simp
  show ?thesis
    using readGGUF_le32 [OF d] readGGUF_le32 [OF drop_after [OF d, simplified]]
    by (simp add: F32 bnd_def readGGUF_value_def readGGUF_scalar_def tag_def)
next
  case (Bool b)
  with assms(4) have d: "drop pos file = le32 ggufTypeBool @ le_bool b @ rest" by simp
  have l: "length (le_bool b) = 1" by (simp add: le_bool_def)
  show ?thesis
    using readGGUF_le32 [OF d] readGGUF_bool_at [OF drop_after [OF d, simplified]]
    by (simp add: Bool bnd_def readGGUF_value_def readGGUF_scalar_def tag_def l)
next
  case (Str s)
  with assms(4) have d: "drop pos file =
      le32 ggufTypeString @ le64 (of_nat (length s)) @ bytes_of_string s @ rest" by simp
  from Str assms(2) have g: "go_len (length s)" by simp
  show ?thesis
    using readGGUF_le32 [OF d]
      readGGUFString_at [OF assms(3) g drop_after [OF d, simplified]]
    by (simp add: Str bnd_def readGGUF_value_def readGGUF_scalar_def tag_def)
next
  case (ArrI32 xs)
  with assms(4) have d: "drop pos file = le32 ggufTypeArray @ le32 ggufTypeInt32
      @ le64 (of_nat (length xs)) @ concat (map le32 xs) @ rest" by simp
  from ArrI32 assms(2) have g: "go_len (length xs)" by simp
  show ?thesis
    using readGGUF_le32 [OF d]
      readGGUFArray_at [OF assms(3) g drop_after [OF d, simplified] read_elements_le32(1)]
    by (simp add: ArrI32 bnd_def readGGUF_value_def readGGUF_scalar_def tag_def)
next
  case (ArrU32 xs)
  with assms(4) have d: "drop pos file = le32 ggufTypeArray @ le32 ggufTypeUint32
      @ le64 (of_nat (length xs)) @ concat (map le32 xs) @ rest" by simp
  from ArrU32 assms(2) have g: "go_len (length xs)" by simp
  show ?thesis
    using readGGUF_le32 [OF d]
      readGGUFArray_at [OF assms(3) g drop_after [OF d, simplified] read_elements_le32(2)]
    by (simp add: ArrU32 bnd_def readGGUF_value_def readGGUF_scalar_def tag_def)
next
  case (ArrF32 xs)
  with assms(4) have d: "drop pos file = le32 ggufTypeArray @ le32 ggufTypeFloat32
      @ le64 (of_nat (length xs)) @ concat (map le32 xs) @ rest" by simp
  from ArrF32 assms(2) have g: "go_len (length xs)" by simp
  show ?thesis
    using readGGUF_le32 [OF d]
      readGGUFArray_at [OF assms(3) g drop_after [OF d, simplified] read_elements_le32(3)]
    by (simp add: ArrF32 bnd_def readGGUF_value_def readGGUF_scalar_def tag_def)
next
  case (ArrStr xs)
  with assms(4) have d: "drop pos file = le32 ggufTypeArray @ le32 ggufTypeString
      @ le64 (of_nat (length xs))
      @ concat (map (\<lambda>e. le64 (of_nat (length e)) @ bytes_of_string e) xs) @ rest" by simp
  from ArrStr assms(2) have g: "go_len (length xs)"
    and gs: "list_all (\<lambda>s. go_len (length s)) xs" by simp_all
  show ?thesis
    using readGGUF_le32 [OF d]
      readGGUFArray_at [OF assms(3) g drop_after [OF d, simplified]
        read_elements_string [OF assms(3) gs]]
    by (simp add: ArrStr bnd_def readGGUF_value_def readGGUF_scalar_def tag_def)
qed (use assms(1) in simp_all)

lemma decode_kvs_at:
  assumes "ver \<noteq> 1"
  shows "list_all wf_entry es \<Longrightarrow> drop pos file = concat (map layout_entry es) @ rest \<Longrightarrow>
     decode_kvs LittleEndian ver file (length es) pos m =
       Inr (foldl (\<lambda>m e. AList.update (fst e) (as_read (snd e)) m) m es,
            pos + length (concat (map layout_entry es)))"
proof (induction es arbitrary: pos m)
  case Nil
  then show ?case by simp
next
  case (Cons e es)
  obtain k v where e: "e = (k, v)" by (cases e)
  from Cons.prems(1) have we: "wf_entry e" and wes: "list_all wf_entry es"
    by simp_all
  from we e have g: "go_len (length k)" and s: "write_supported v" and w: "wf_value v"
    by (simp_all add: wf_entry_def)
  from Cons.prems(2) e have d: "drop pos file =
      le64 (of_nat (length k)) @ bytes_of_string k
        @ (layout_value v @ concat (map layout_entry es) @ rest)"
    by (simp add: layout_entry_def [of "(k, v)"])
  have rk: "readGGUFString LittleEndian ver file pos = Inr (k, pos + 8 + length k)"
    using assms g d by (rule readGGUFString_at)
  have d1: "drop (pos + 8 + length k) file = layout_value v @ (concat (map layout_entry es) @ rest)"
    using drop_after [OF d] drop_after [of "pos + 8" "file" "bytes_of_string k"]
    by simp
  have rv: "bnd (readGGUF LittleEndian 4 file (pos + 8 + length k))
           (\<lambda>(t, pos2). readGGUF_value LittleEndian ver t file pos2)
         = Inr (as_read v, pos + 8 + length k + length (layout_value v))"
    using s w assms d1 by (rule readGGUF_value_at)
  have d2: "drop (pos + 8 + length k + length (layout_value v)) file =
      concat (map layout_entry es) @ rest"
    using d1 by (rule drop_after)
  have ih: "decode_kvs LittleEndian ver file (length es)
       (pos + 8 + length k + length (layout_value v)) (AList.update k (as_read v) m) =
       Inr (foldl (\<lambda>m e. AList.update (fst e) (as_read (snd e)) m) (AList.update k (as_read v) m) es,
            pos + 8 + length k + length (layout_value v) + length (concat (map layout_entry es)))"
    using wes d2 by (rule Cons.IH)
  have step: "decode_kvs LittleEndian ver file (Suc (length es)) pos m =
      bnd (bnd (readGGUF LittleEndian 4 file (pos + 8 + length k))
             (\<lambda>(t, pos2). readGGUF_value LittleEndian ver t file pos2))
        (\<lambda>(v, pos3). decode_kvs LittleEndian ver file (length es) pos3 (AList.update k v m))"
    by (simp add: rk bnd_def split: sum.splits prod.splits)
  have "decode_kvs LittleEndian ver file (length (e # es)) pos m =
      decode_kvs LittleEndian ver file (Suc (length es)) pos m"
    by simp
  also have "\<dots> = bnd (bnd (readGGUF LittleEndian 4 file (pos + 8 + length k))
             (\<lambda>(t, pos2). readGGUF_value LittleEndian ver t file pos2))
        (\<lambda>(v, pos3). decode_kvs LittleEndian ver file (length es) pos3 (AList.update k v m))"
    by (rule step)
  also have "\<dots> = decode_kvs LittleEndian ver file (length es)
       (pos + 8 + length k + length (layout_value v)) (AList.update k (as_read v) m)"
    by (simp only: rv) (simp add: bnd_def)
  also note ih
  finally show ?case
    by (simp add: e layout_entry_def [of "(k, v)"] add.assoc)
qed

lemma ggufWriteKV_layout:
  "write_supported v \<Longrightarrow> ggufWriteKV ws k v = Inr (ws @ layout_entry (k, v))"
  by (cases v)
     (simp_all add: ggufWriteKV_def Let_def layout_entry_def writeGGUF_def writeGGUFString_def
       writeGGUFArray_def)

lemma write_kvs_layout:
  "list_all (\<lambda>k. write_supported (kv_get m k)) keys \<Longrightarrow>
     write_kvs ws m keys = Inr (ws @ concat (map (\<lambda>k. layout_entry (k, kv_get m k)) keys))"
proof (induction keys arbitrary: ws)
  case Nil
  then show ?case by simp
next
  case (Cons key keys)
  then show ?case by (simp add: ggufWriteKV_layout bnd_def)
qed

lemma kv_get_mem:
  "k \<in> set (map fst m) \<Longrightarrow> (k, kv_get m k) \<in> set m"
  by (induction m) (auto simp: kv_get_def)

lemma written_entries_wf:
  assumes "list_all wf_entry m"
  shows "list_all wf_entry (written_entries m)"
proof -
  have "wf_entry (k, kv_get m k)" if "k \<in> set (map fst m)" for k
    using kv_get_mem [OF that] assms by (auto simp: list_all_iff)
  then show ?thesis
    by (simp add: written_entries_def list_all_iff)
qed

lemma written_entries_supported:
  assumes "list_all wf_entry m"
  shows "list_all (\<lambda>k. write_supported (kv_get m k)) (sort (map fst m))"
proof -
  have "write_supported (kv_get m k)" if "k \<in> set (map fst m)" for k
    using kv_get_mem [OF that] assms by (auto simp: list_all_iff wf_entry_def)
  then show ?thesis
    by (simp add: list_all_iff)
qed

lemma map_of_foldl_update:
  "map_of (foldl (\<lambda>m e. AList.update (fst e) (f (snd e)) m) m0 es) k =
     (case map_of (rev es) k of Some v \<Rightarrow> Some (f v) | None \<Rightarrow> map_of m0 k)"
proof (induction es arbitrary: m0)
  case Nil
  then show ?case by simp
next
  case (Cons e es)
  show ?case
    by (cases e) (simp add: Cons update_conv' map_add_def split: option.splits)
qed

lemma map_of_written_entries:
  "map_of (rev (written_entries m)) k = map_of m k"
proof -
  have "rev (written_entries m) = map (\<lambda>k. (k, kv_get m k)) (rev (sort (map fst m)))"
    by (simp add: written_entries_def rev_map)
  then have "map_of (rev (written_entries m)) k =
      (if k \<in> set (map fst m) then Some (kv_get m k) else None)"
    by (simp add: map_of_map_restrict restrict_map_def)
  also have "\<dots> = map_of m k"
  proof (cases "map_of m k")
    case None
    then have "k \<notin> set (map fst m)" by (simp add: map_of_eq_None_iff)
    with None show ?thesis by simp
  next
    case (Some v)
    then have "k \<in> set (map fst m)"
      by (metis map_of_eq_None_iff option.distinct(1) set_map)
    with Some show ?thesis by (simp add: kv_get_def)
  qed
  finally show ?thesis .
qed

lemma map_of_decoded_entries:
  "map_of (foldl (\<lambda>m e. AList.update (fst e) (as_read (snd e)) m) [] (written_entries m)) k =
     map_option as_read (map_of m k)"
  by (simp add: map_of_foldl_update map_of_written_entries split: option.splits)

section \<open>Tensor descriptors: the reader on the writer's bytes\<close>

lemma shape_loop_rev:
  "map (\<lambda>i. f (xs ! (length xs - Suc i))) [0..<length xs] = map f (rev xs)"
  by (rule nth_equalityI) (simp_all add: rev_nth)

lemma ggufWriteTensorInfo_layout:
  "ggufWriteTensorInfo ws t = ws @ layout_descriptor t (Offset t)"
  by (simp add: ggufWriteTensorInfo_def layout_descriptor_def shape_loop_rev)

lemma layout_descriptor_Offset [simp]:
  "layout_descriptor (t\<lparr>Offset := s\<rparr>) off = layout_descriptor t off"
  by (simp add: layout_descriptor_def)

lemma Size_Offset [simp]: "Size bpe (t\<lparr>Offset := s\<rparr>) = Size bpe t"
  by (simp add: Size_def parameters_def)

lemma length_offsets [simp]: "length (offsets bpe s ts) = length ts"
  by (induction ts arbitrary: s) simp_all

lemma write_infos_layout:
  "write_infos bpe ws s ts = ws @ concat (map2 layout_descriptor ts (offsets bpe s ts))"
  by (induction ts arbitrary: ws s) (simp_all add: ggufWriteTensorInfo_layout)

lemma read_shape_at:
  "drop pos file = concat (map le64 ds) @ rest \<Longrightarrow>
     read_shape LittleEndian file (length ds) pos acc =
       Inr (acc @ ds, pos + length (concat (map le64 ds)))"
proof (induction ds arbitrary: pos acc)
  case Nil
  then show ?case by simp
next
  case (Cons d ds)
  from Cons.prems have dr: "drop pos file = le64 d @ (concat (map le64 ds) @ rest)" by simp
  have r: "readGGUF LittleEndian 8 file pos = Inr (d, pos + 8)"
    using dr by (rule readGGUF_le64)
  have dr': "drop (pos + 8) file = concat (map le64 ds) @ rest"
    using drop_after [OF dr] by simp
  have "read_shape LittleEndian file (length ds) (pos + 8) (acc @ [d]) =
       Inr ((acc @ [d]) @ ds, pos + 8 + length (concat (map le64 ds)))"
    using dr' by (rule Cons.IH)
  then show ?case by (simp add: r bnd_def add.assoc)
qed

lemma u32_len_unat: "int n < 2 ^ 32 \<Longrightarrow> unat (of_nat n :: 32 word) = n"
proof -
  assume "int n < 2 ^ 32"
  then have "int n < int (2 ^ 32)" by (simp only: of_nat_power of_nat_numeral)
  then have "n < 2 ^ 32" by (simp only: of_nat_less_iff)
  then have t: "take_bit 32 n = n" by (rule take_bit_nat_eq_self)
  have "unat (of_nat n :: 32 word) = take_bit LENGTH(32) n"
    by (simp add: unsigned_of_nat)
  then show ?thesis using t by simp
qed

lemma prod_list_rev_word: "prod_list (rev xs) = prod_list (xs :: 64 word list)"
  by (induction xs) (simp_all add: mult.commute)

lemma parameters_decoded [simp]: "parameters (decoded_tensor t off) = parameters t"
  by (simp add: parameters_def decoded_tensor_def prod_list_rev_word)

lemma decode_tensor_at:
  assumes "ver \<noteq> 1" and "wf_tensor t"
    and "drop pos file = layout_descriptor t off @ rest"
  shows "decode_tensors LittleEndian ver file (Suc n) pos acc ps =
     decode_tensors LittleEndian ver file n (pos + length (layout_descriptor t off))
       (acc @ [decoded_tensor t off]) (ps + parameters t)"
proof -
  from assms(2) have g: "go_len (length (Name t))" and u: "int (length (Shape t)) < 2 ^ 32"
    by (simp_all add: wf_tensor_def)
  from assms(3) have d0: "drop pos file =
      le64 (of_nat (length (Name t))) @ bytes_of_string (Name t)
        @ (le32 (of_nat (length (Shape t))) @ concat (map le64 (rev (Shape t)))
        @ le32 (Kind t) @ le64 off @ rest)"
    by (simp add: layout_descriptor_def)
  have r0: "readGGUFString LittleEndian ver file pos = Inr (Name t, pos + 8 + length (Name t))"
    using assms(1) g d0 by (rule readGGUFString_at)
  have d1: "drop (pos + 8 + length (Name t)) file =
      le32 (of_nat (length (Shape t))) @ (concat (map le64 (rev (Shape t)))
        @ le32 (Kind t) @ le64 off @ rest)"
    using drop_after [OF d0] drop_after [of "pos + 8" "file" "bytes_of_string (Name t)"]
    by simp
  have r1: "readGGUF LittleEndian 4 file (pos + 8 + length (Name t)) =
      Inr (of_nat (length (Shape t)) :: 32 word, pos + 8 + length (Name t) + 4)"
    using d1 by (rule readGGUF_le32)
  have d2: "drop (pos + 8 + length (Name t) + 4) file =
      concat (map le64 (rev (Shape t))) @ (le32 (Kind t) @ le64 off @ rest)"
    using drop_after [OF d1] by simp
  have r2: "read_shape LittleEndian file (length (Shape t)) (pos + 8 + length (Name t) + 4) []
      = Inr (rev (Shape t),
          pos + 8 + length (Name t) + 4 + length (concat (map le64 (rev (Shape t)))))"
    using read_shape_at [OF d2, of "[]"] by simp
  have d3: "drop (pos + 8 + length (Name t) + 4 + length (concat (map le64 (rev (Shape t))))) file =
      le32 (Kind t) @ (le64 off @ rest)"
    using drop_after [OF d2] by simp
  have r3: "readGGUF LittleEndian 4 file
      (pos + 8 + length (Name t) + 4 + length (concat (map le64 (rev (Shape t))))) =
      Inr (Kind t, pos + 8 + length (Name t) + 4 + length (concat (map le64 (rev (Shape t)))) + 4)"
    using d3 by (rule readGGUF_le32)
  have d4: "drop (pos + 8 + length (Name t) + 4 + length (concat (map le64 (rev (Shape t)))) + 4) file =
      le64 off @ rest"
    using drop_after [OF d3] by simp
  have r4: "readGGUF LittleEndian 8 file
      (pos + 8 + length (Name t) + 4 + length (concat (map le64 (rev (Shape t)))) + 4) =
      Inr (off, pos + 8 + length (Name t) + 4 + length (concat (map le64 (rev (Shape t)))) + 4 + 8)"
    using d4 by (rule readGGUF_le64)
  have l: "length (layout_descriptor t off) =
      8 + length (Name t) + 4 + length (concat (map le64 (rev (Shape t)))) + 4 + 8"
    by (simp add: layout_descriptor_def)
  have "decode_tensors LittleEndian ver file (Suc n) pos acc ps =
     decode_tensors LittleEndian ver file n
       (pos + 8 + length (Name t) + 4 + length (concat (map le64 (rev (Shape t)))) + 4 + 8)
       (acc @ [\<lparr>Name = Name t, Kind = Kind t, Offset = off, Shape = rev (Shape t),
                 WriterTo = None\<rparr>])
       (ps + parameters \<lparr>Name = Name t, Kind = Kind t, Offset = off, Shape = rev (Shape t),
                 WriterTo = None\<rparr>)"
    by (simp only: decode_tensors.simps r0 r1 r2 r3 r4 bnd_def sum.case prod.case
        u32_len_unat [OF u] Let_def)
  then show ?thesis
    by (simp add: l decoded_tensor_def parameters_def prod_list_rev_word add.assoc)
qed

lemma decode_tensors_at:
  assumes "ver \<noteq> 1"
  shows "list_all wf_tensor ts \<Longrightarrow>
     drop pos file = concat (map2 layout_descriptor ts (offsets bpe s ts)) @ rest \<Longrightarrow>
     decode_tensors LittleEndian ver file (length ts) pos acc ps =
       Inr (acc @ map2 decoded_tensor ts (offsets bpe s ts),
            ps + sum_list (map parameters ts),
            pos + length (concat (map2 layout_descriptor ts (offsets bpe s ts))))"
proof (induction ts arbitrary: pos acc ps s)
  case Nil
  then show ?case by simp
next
  case (Cons t ts)
  from Cons.prems(1) have wt: "wf_tensor t" and wts: "list_all wf_tensor ts" by simp_all
  from Cons.prems(2) have d: "drop pos file = layout_descriptor t s
      @ (concat (map2 layout_descriptor ts (offsets bpe (s + Size bpe t) ts)) @ rest)"
    by simp
  have d': "drop (pos + length (layout_descriptor t s)) file =
      concat (map2 layout_descriptor ts (offsets bpe (s + Size bpe t) ts)) @ rest"
    using d by (rule drop_after)
  have "decode_tensors LittleEndian ver file (length (t # ts)) pos acc ps =
      decode_tensors LittleEndian ver file (Suc (length ts)) pos acc ps"
    by simp
  also have "\<dots> = decode_tensors LittleEndian ver file (length ts)
       (pos + length (layout_descriptor t s)) (acc @ [decoded_tensor t s]) (ps + parameters t)"
    using assms wt d by (rule decode_tensor_at)
  also have "\<dots> = Inr ((acc @ [decoded_tensor t s])
          @ map2 decoded_tensor ts (offsets bpe (s + Size bpe t) ts),
       ps + parameters t + sum_list (map parameters ts),
       pos + length (layout_descriptor t s)
         + length (concat (map2 layout_descriptor ts (offsets bpe (s + Size bpe t) ts))))"
    using wts d' by (rule Cons.IH)
  finally show ?case by (simp add: add.assoc)
qed

section \<open>The whole file: what the writer emits and what the reader makes of it\<close>

lemma go_rem_nonneg: "0 \<le> a \<Longrightarrow> 0 < b \<Longrightarrow> go_rem a b = a mod b"
  by (cases "a = 0") (simp_all add: go_rem_def)

lemma ggufPadding_32: "ggufPadding (int n) 32 = Inr (int (padding32 n))"
proof -
  have a: "go_rem (int n) 32 = int (n mod 32)"
    by (simp add: go_rem_nonneg zmod_int)
  have "n mod 32 < 32" by simp
  then have b: "32 - int (n mod 32) = int (32 - n mod 32)" by linarith
  have c: "go_rem (int (32 - n mod 32)) 32 = int ((32 - n mod 32) mod 32)"
    by (simp add: go_rem_nonneg zmod_int)
  show ?thesis
    by (simp only: ggufPadding_def a b c padding32_def) simp
qed

lemma ggufWriteTensor_layout:
  assumes "has_payload t"
  shows "ggufWriteTensor ws t 32 =
       Inr (ws @ payload t @ replicate (padding32 (length ws + length (payload t))) 0)"
proof -
  from assms obtain bs where w: "WriterTo t = Some (Inr bs)"
    by (auto simp: has_payload_def split: option.splits sum.splits)
  then have p: "payload t = bs" by (simp add: payload_def)
  have "ggufWriteTensor ws t 32 =
      bnd (ggufPadding (int (length (ws @ bs))) 32) (\<lambda>padding.
            Inr (ws @ bs @ replicate (nat padding) 0))"
    by (simp only: ggufWriteTensor_def w option.case sum.case)
  also have "\<dots> = Inr (ws @ bs @ replicate (padding32 (length (ws @ bs))) 0)"
    by (simp only: ggufPadding_32 bnd_def sum.case nat_int)
  finally show ?thesis by (simp add: p)
qed

lemma write_tensors_layout:
  "list_all has_payload ts \<Longrightarrow>
     write_tensors ws ts 32 = Inr (ws @ payload_region (length ws) ts)"
proof (induction ts arbitrary: ws)
  case Nil
  then show ?case by simp
next
  case (Cons t ts)
  from Cons.prems have ht: "has_payload t" and hts: "list_all has_payload ts" by simp_all
  show ?case
    by (simp add: ggufWriteTensor_layout [OF ht] bnd_def Cons.IH [OF hts] add.assoc)
qed

text \<open>
  Two procedures that meet the contract of \<open>slices.SortFunc\<close>: the stable insertion
  sort, and the same sort of the reversed list, which leaves tensors of one name in the
  opposite order. What follows holds for every procedure that meets the contract.
\<close>

lemma sort_key_sorts_by_Name: "sorts_by_Name (sort_key Name)"
  by (simp add: sorts_by_Name_def)

lemma sort_key_rev_sorts_by_Name: "sorts_by_Name (\<lambda>ts. sort_key Name (rev ts))"
  by (simp add: sorts_by_Name_def)

lemma sorts_by_Name_length: "sorts_by_Name srt \<Longrightarrow> length (srt ts) = length ts"
  by (auto simp: sorts_by_Name_def dest: mset_eq_length)

lemma sorts_by_Name_set: "sorts_by_Name srt \<Longrightarrow> set (srt ts) = set ts"
  by (auto simp: sorts_by_Name_def dest: mset_eq_setD)

lemma sorts_by_Name_sum_list:
  fixes f :: "Tensor \<Rightarrow> 'a :: comm_monoid_add"
  assumes "sorts_by_Name srt"
  shows "sum_list (map f (srt ts)) = sum_list (map f ts)"
proof -
  from assms have "mset (srt ts) = mset ts" by (simp add: sorts_by_Name_def)
  then have "sum_mset (mset (map f (srt ts))) = sum_mset (mset (map f ts))"
    by (simp only: mset_map)
  then show ?thesis by (simp only: sum_mset_sum_list)
qed

lemma wf_tensors_sorted:
  "sorts_by_Name srt \<Longrightarrow> wf_tensors ts \<Longrightarrow> wf_tensors (srt ts)"
  by (simp add: wf_tensors_def list_all_iff sorts_by_Name_length sorts_by_Name_set)

lemma wf_tensors_payload:
  "wf_tensors ts \<Longrightarrow> list_all has_payload ts"
  by (simp add: wf_tensors_def wf_tensor_def list_all_iff)

lemma concat_written_entries:
  "concat (map (\<lambda>k. layout_entry (k, kv_get m k)) (sort (map fst m))) =
     concat (map layout_entry (written_entries m))"
  by (simp add: written_entries_def comp_def)

lemma WriteGGUF_layout:
  assumes "sorts_by_Name srt" and "wf_kv m" and "wf_tensors ts"
  shows "WriteGGUF bpe srt [] m ts = Inr (layout_file bpe m (srt ts))"
proof -
  from assms(2) have we: "list_all wf_entry m" by (simp add: wf_kv_def)
  note l = sorts_by_Name_length [OF assms(1), of ts]
  have k: "write_kvs (bytes_of_string ''GGUF'' @ le32 3 @ le64 (of_nat (length ts))
                @ le64 (of_nat (length m))) m (sort (map fst m)) =
      Inr ((bytes_of_string ''GGUF'' @ le32 3 @ le64 (of_nat (length ts))
                @ le64 (of_nat (length m)))
            @ concat (map layout_entry (written_entries m)))"
    using write_kvs_layout [OF written_entries_supported [OF we]]
    by (simp only: concat_written_entries)
  have "WriteGGUF bpe srt [] m ts =
      bnd (ggufPadding (int (length (layout_head bpe m (srt ts)))) 32) (\<lambda>padding.
        write_tensors (layout_head bpe m (srt ts) @ replicate (nat padding) 0) (srt ts) 32)"
    by (simp add: WriteGGUF_def Let_def k bnd_def write_infos_layout layout_head_def add.assoc l
        cong: sum.case_cong)
  also have "\<dots> = Inr (layout_file bpe m (srt ts))"
    by (simp add: ggufPadding_32 bnd_def layout_file_def
        write_tensors_layout [OF wf_tensors_payload [OF wf_tensors_sorted [OF assms(1,3)]]])
  finally show ?thesis .
qed

lemma Decode_layout:
  assumes "wf_kv m" and "wf_tensors ts" and "file = layout_head bpe m ts @ tail"
  shows "containerGGUF_Decode bpe LittleEndian file 4 =
     bnd (skip_payloads bpe (uint (alignment_of (decoded_kv m (sum_list (map parameters ts)))))
            (decoded_tensors bpe ts) (length (layout_head bpe m ts)))
       (\<lambda>pos4. Inr (decoded_model bpe m ts, pos4))"
proof -
  define E where "E = concat (map layout_entry (written_entries m))"
  define D where
    "D = concat (map2 layout_descriptor ts (offsets bpe 0 ts))"
  define nt :: "64 word" where "nt = of_nat (length ts)"
  define nk :: "64 word" where "nk = of_nat (length m)"
  from assms(1) have we: "list_all wf_entry m" and gm: "go_len (length m)"
    by (simp_all add: wf_kv_def)
  from assms(2) have gt: "go_len (length ts)" and wt: "list_all wf_tensor ts"
    by (simp_all add: wf_tensors_def)
  have f: "file = bytes_of_string ''GGUF'' @ le32 3 @ le64 nt @ le64 nk @ E @ D @ tail"
    by (simp add: assms(3) layout_head_def E_def D_def nt_def nk_def)
  have lh: "length (layout_head bpe m ts) = 24 + length E + length D"
    by (simp add: layout_head_def E_def D_def)
  have d4: "drop 4 file = le32 3 @ (le64 nt @ le64 nk @ E @ D @ tail)"
    by (simp add: f)
  have rv: "readGGUF LittleEndian 4 file 4 = Inr (3 :: 32 word, 4 + 4)"
    using d4 by (rule readGGUF_le32)
  have d8: "drop (4 + 4) file = (le64 nt @ le64 nk) @ (E @ D @ tail)"
    using drop_after [OF d4] by simp
  have rh: "read_full file (4 + 4) 16 = Inr (le64 nt @ le64 nk, 4 + 4 + 16)"
    using read_full_at [OF d8] by simp
  have d24: "drop (4 + 4 + 16) file = E @ (D @ tail)"
    using drop_after [OF d8] by simp
  have v3: "(3 :: 32 word) \<noteq> 1" by simp
  have lw: "length (written_entries m) = length m"
    by (simp add: written_entries_def)
  have rk: "decode_kvs LittleEndian 3 file (length m) (4 + 4 + 16) [] =
       Inr (foldl (\<lambda>m e. AList.update (fst e) (as_read (snd e)) m) [] (written_entries m),
            4 + 4 + 16 + length E)"
    using decode_kvs_at [OF v3 written_entries_wf [OF we], of "4 + 4 + 16" "file" "D @ tail" "[]"]
      d24
    by (simp only: E_def lw)
  have d24E: "drop (4 + 4 + 16 + length E) file = D @ tail"
    using d24 by (rule drop_after)
  have rt: "decode_tensors LittleEndian 3 file (length ts) (4 + 4 + 16 + length E) [] 0 =
       Inr ([] @ map2 decoded_tensor ts (offsets bpe 0 ts),
            0 + sum_list (map parameters ts),
            4 + 4 + 16 + length E + length D)"
    using decode_tensors_at [OF v3 wt, of "4 + 4 + 16 + length E" "file" bpe 0 tail "[]" 0] d24E
    by (simp only: D_def)
  have g: "gguf_Decode bpe LittleEndian 3 nt nk file (4 + 4 + 16) =
     bnd (skip_payloads bpe (uint (alignment_of (decoded_kv m (sum_list (map parameters ts)))))
            (decoded_tensors bpe ts) (4 + 4 + 16 + length E + length D))
       (\<lambda>pos4. Inr (decoded_model bpe m ts, pos4))"
    unfolding gguf_Decode_def nt_def nk_def go_len_unat [OF gm] go_len_unat [OF gt] rk
      bnd_def sum.case prod.case rt Let_def
    by (simp add: decoded_kv_def decoded_model_def decoded_tensors_def cong: sum.case_cong)
  have "containerGGUF_Decode bpe LittleEndian file 4 =
      gguf_Decode bpe LittleEndian 3 nt nk file (4 + 4 + 16)"
    unfolding containerGGUF_Decode_def rv bnd_def sum.case prod.case if_not_P [OF v3] rh
    by (simp add: decode_word_def)
  also note g
  finally show ?thesis
    by (simp add: lh)
qed

section \<open>The reader's seeks past the payloads\<close>

lemma ggufPadding_range:
  assumes "0 \<le> x" and "0 < a"
  shows "\<exists>r. ggufPadding x a = Inr r \<and> 0 \<le> r \<and> r < a"
proof -
  have 1: "go_rem x a = x mod a" using assms by (rule go_rem_nonneg)
  have "x mod a < a" using assms(2) by simp
  then have 2: "0 \<le> a - x mod a" by simp
  have 3: "go_rem (a - x mod a) a = (a - x mod a) mod a"
    using 2 assms(2) by (rule go_rem_nonneg)
  have "ggufPadding x a = Inr ((a - x mod a) mod a)"
    using assms(2) by (simp add: ggufPadding_def 1 3)
  moreover have "0 \<le> (a - x mod a) mod a" "(a - x mod a) mod a < a"
    using assms(2) by simp_all
  ultimately show ?thesis by blast
qed

lemma seek_current_ok:
  "0 \<le> off \<Longrightarrow> int pos + off < 2 ^ 63 \<Longrightarrow> seek_current pos off = Inr (pos + nat off)"
  by (simp add: seek_current_def nat_add_distrib)

lemma sum_list_sizes_nonneg:
  "0 < a \<Longrightarrow> list_all (\<lambda>t. 0 \<le> sint (Size bpe t)) ts \<Longrightarrow>
     0 \<le> sum_list (map (\<lambda>t. sint (Size bpe t) + a) ts)"
  by (induction ts) auto

lemma seek_tensors_ok:
  assumes "0 < a"
  shows "list_all (\<lambda>t. 0 \<le> sint (Size bpe t)) ts \<Longrightarrow>
     int pos + sum_list (map (\<lambda>t. sint (Size bpe t) + a) ts) < 2 ^ 63 \<Longrightarrow>
     \<exists>p. seek_tensors bpe a ts pos = Inr p"
proof (induction ts arbitrary: pos)
  case Nil
  then show ?case by simp
next
  case (Cons t ts)
  from Cons.prems(1) have st: "0 \<le> sint (Size bpe t)"
    and sts: "list_all (\<lambda>t. 0 \<le> sint (Size bpe t)) ts" by simp_all
  have nn: "0 \<le> sum_list (map (\<lambda>t. sint (Size bpe t) + a) ts)"
    using assms sts by (rule sum_list_sizes_nonneg)
  from Cons.prems(2) have b: "int pos + sint (Size bpe t) + a
      + sum_list (map (\<lambda>t. sint (Size bpe t) + a) ts) < 2 ^ 63" by simp
  have s1: "seek_current pos (sint (Size bpe t)) = Inr (pos + nat (sint (Size bpe t)))"
    using st b nn assms by (intro seek_current_ok) linarith+
  obtain r where r: "ggufPadding (sint (Size bpe t)) a = Inr r" "0 \<le> r" "r < a"
    using ggufPadding_range [OF st assms] by blast
  have s2: "seek_current (pos + nat (sint (Size bpe t))) r =
      Inr (pos + nat (sint (Size bpe t)) + nat r)"
    using st b nn r by (intro seek_current_ok) linarith+
  have "int (pos + nat (sint (Size bpe t)) + nat r)
      + sum_list (map (\<lambda>t. sint (Size bpe t) + a) ts) < 2 ^ 63"
    using st b r by linarith
  then obtain p where "seek_tensors bpe a ts (pos + nat (sint (Size bpe t)) + nat r) = Inr p"
    using Cons.IH [OF sts] by blast
  then show ?case by (simp add: s1 r(1) s2 bnd_def)
qed

lemma skip_payloads_ok:
  assumes "seeks_fit bpe a ts pos"
  shows "\<exists>p. skip_payloads bpe a ts pos = Inr p"
proof -
  from assms have a: "0 < a" and s: "list_all (\<lambda>t. 0 \<le> sint (Size bpe t)) ts"
    and b: "int pos + a + sum_list (map (\<lambda>t. sint (Size bpe t) + a) ts) < 2 ^ 63"
    by (simp_all add: seeks_fit_def)
  have nn: "0 \<le> sum_list (map (\<lambda>t. sint (Size bpe t) + a) ts)"
    using a s by (rule sum_list_sizes_nonneg)
  have s0: "seek_current pos 0 = Inr pos"
    using seek_current_ok [of 0 pos] a b nn by simp
  obtain r where r: "ggufPadding (int pos) a = Inr r" "0 \<le> r" "r < a"
    using ggufPadding_range [of "int pos" a] a by auto
  have s1: "seek_current pos r = Inr (pos + nat r)"
    using a b nn r by (intro seek_current_ok) linarith+
  have "int (pos + nat r) + sum_list (map (\<lambda>t. sint (Size bpe t) + a) ts) < 2 ^ 63"
    using b r by linarith
  then obtain p where "seek_tensors bpe a ts (pos + nat r) = Inr p"
    using seek_tensors_ok [OF a s] by blast
  then show ?thesis by (simp add: skip_payloads_def s0 r(1) s1 bnd_def)
qed

lemma as_read_U32: "(as_read v = U32 a) = (v = U32 a)"
  by (cases v) simp_all

lemma map_of_decoded_kv:
  "map_of (decoded_kv m ps) =
     (map_option as_read \<circ> map_of m)(''general.parameter_count'' \<mapsto> U64 ps)"
  by (rule ext) (simp add: decoded_kv_def update_conv' map_of_decoded_entries)

lemma alignment_of_decoded_kv: "alignment_of (decoded_kv m ps) = alignment_of m"
proof (cases "map_of m ''general.alignment''")
  case None
  then show ?thesis by (simp add: alignment_of_def map_of_decoded_kv)
next
  case (Some v)
  show ?thesis
  proof (cases "\<exists>a. v = U32 a")
    case True
    then show ?thesis using Some by (auto simp: alignment_of_def map_of_decoded_kv)
  next
    case False
    then have "\<And>a. as_read v \<noteq> U32 a" by (simp add: as_read_U32)
    with False Some show ?thesis
      by (cases v; cases "as_read v") (simp_all add: alignment_of_def map_of_decoded_kv)
  qed
qed

lemma Decode_written:
  assumes "wf_kv m" and "wf_tensors ts"
    and "containerGGUF_Decode bpe LittleEndian (layout_file bpe m ts) 4 = Inr (g, p)"
  shows "g = decoded_model bpe m ts"
proof -
  have f: "layout_file bpe m ts = layout_head bpe m ts
      @ (replicate (padding32 (length (layout_head bpe m ts))) 0
         @ payload_region
             (length (layout_head bpe m ts) + padding32 (length (layout_head bpe m ts)))
             ts)"
    by (simp add: layout_file_def)
  show ?thesis
    using Decode_layout [OF assms(1,2) f] assms(3)
    by (auto simp: bnd_def split: sum.splits)
qed

lemma Decode_total:
  assumes "wf_kv m" and "wf_tensors ts"
    and "seeks_fit bpe (uint (alignment_of m)) (decoded_tensors bpe ts)
           (length (layout_head bpe m ts))"
  shows "\<exists>p. containerGGUF_Decode bpe LittleEndian (layout_file bpe m ts) 4
           = Inr (decoded_model bpe m ts, p)"
proof -
  have f: "layout_file bpe m ts = layout_head bpe m ts
      @ (replicate (padding32 (length (layout_head bpe m ts))) 0
         @ payload_region
             (length (layout_head bpe m ts) + padding32 (length (layout_head bpe m ts)))
             ts)"
    by (simp add: layout_file_def)
  obtain p where "skip_payloads bpe (uint (alignment_of m)) (decoded_tensors bpe ts)
           (length (layout_head bpe m ts)) = Inr p"
    using skip_payloads_ok [OF assms(3)] by blast
  then show ?thesis
    using Decode_layout [OF assms(1,2) f]
    by (simp add: bnd_def alignment_of_decoded_kv)
qed

section \<open>Round trips through the writer and the reader\<close>

lemma decoded_tensors_nth:
  assumes "i < length ts"
  shows "decoded_tensors bpe ts ! i =
     \<lparr>Name = Name (ts ! i), Kind = Kind (ts ! i), Offset = offsets bpe 0 ts ! i,
      Shape = rev (Shape (ts ! i)), WriterTo = None\<rparr>"
  using assms by (simp add: decoded_tensors_def decoded_tensor_def)

lemma sort_example_tensors:
  "sort_key Name example_tensors =
     [\<lparr>Name = ''a.weight'', Kind = 0, Offset = 0, Shape = [5], WriterTo = Some (Inr [])\<rparr>,
      \<lparr>Name = ''b.weight'', Kind = 0, Offset = 0, Shape = [2, 3], WriterTo = Some (Inr [1, 2, 3])\<rparr>]"
  by (simp add: example_tensors_def)

lemma evaluate_example_tensors:
  "decoded_tensors four_bytes (sort_key Name example_tensors) =
     [\<lparr>Name = ''a.weight'', Kind = 0, Offset = 0, Shape = [5], WriterTo = None\<rparr>,
      \<lparr>Name = ''b.weight'', Kind = 0, Offset = 20, Shape = [3, 2], WriterTo = None\<rparr>]"
  unfolding sort_example_tensors
  by (simp add: decoded_tensors_def decoded_tensor_def four_bytes_def Size_def parameters_def)

lemma wf_example_kv: "wf_kv example_kv"
  by (simp add: wf_kv_def wf_entry_def example_kv_def go_len_def)

lemma wf_example_tensors: "wf_tensors example_tensors"
  by (simp add: wf_tensors_def wf_tensor_def example_tensors_def go_len_def has_payload_def)

lemma length_example_head:
  "length (layout_head four_bytes example_kv (sort_key Name example_tensors)) = 188"
  unfolding sort_example_tensors
  by (simp add: layout_head_def written_entries_def example_kv_def
      layout_entry_def layout_descriptor_def kv_get_def)

lemma seeks_fit_example:
  "seeks_fit four_bytes (uint (alignment_of example_kv))
     (decoded_tensors four_bytes (sort_key Name example_tensors))
     (length (layout_head four_bytes example_kv (sort_key Name example_tensors)))"
  unfolding evaluate_example_tensors length_example_head
  by (simp add: seeks_fit_def alignment_of_def example_kv_def four_bytes_def Size_def
      parameters_def)

text \<open>
  Claim C2. Let the metadata map and the tensor list be well-formed writer input, and let
  the sorting procedure meet the contract of \<open>slices.SortFunc\<close>, so that \<open>srt ts\<close> is the
  tensor list in the order in which the writer emits the descriptors, whatever order it
  leaves among tensors of one name. Then \<open>WriteGGUF\<close> produces a file; whenever \<open>Decode\<close>
  returns a model for that file, it has as many descriptors as tensors were written, and
  the descriptor at each position has the name and the kind of the tensor written at that
  position, the offset the writer assigned to it, and its shape reversed; and \<open>Decode\<close>
  does return a model when its seeks past the payloads stay in range.
\<close>

theorem WriteGGUF_Decode_tensors:
  assumes "sorts_by_Name srt" and "wf_kv m" and "wf_tensors ts"
  shows "\<exists>file. WriteGGUF bpe srt [] m ts = Inr file
     \<and> (\<forall>g p. containerGGUF_Decode bpe LittleEndian file 4 = Inr (g, p) \<longrightarrow>
          length (tensors g) = length ts
          \<and> (\<forall>i < length ts.
               Name (tensors g ! i) = Name (srt ts ! i)
               \<and> Kind (tensors g ! i) = Kind (srt ts ! i)
               \<and> Offset (tensors g ! i) = offsets bpe 0 (srt ts) ! i
               \<and> Shape (tensors g ! i) = rev (Shape (srt ts ! i))))
     \<and> (seeks_fit bpe (uint (alignment_of m)) (decoded_tensors bpe (srt ts))
           (length (layout_head bpe m (srt ts))) \<longrightarrow>
         (\<exists>g p. containerGGUF_Decode bpe LittleEndian file 4 = Inr (g, p)))"
proof -
  note ws = wf_tensors_sorted [OF assms(1,3)]
  note ls = sorts_by_Name_length [OF assms(1), of ts]
  have w: "WriteGGUF bpe srt [] m ts = Inr (layout_file bpe m (srt ts))"
    using assms by (rule WriteGGUF_layout)
  have r: "\<forall>g p. containerGGUF_Decode bpe LittleEndian (layout_file bpe m (srt ts)) 4 = Inr (g, p) \<longrightarrow>
          length (tensors g) = length ts
          \<and> (\<forall>i < length ts.
               Name (tensors g ! i) = Name (srt ts ! i)
               \<and> Kind (tensors g ! i) = Kind (srt ts ! i)
               \<and> Offset (tensors g ! i) = offsets bpe 0 (srt ts) ! i
               \<and> Shape (tensors g ! i) = rev (Shape (srt ts ! i)))"
  proof (intro allI impI)
    fix g p
    assume d: "containerGGUF_Decode bpe LittleEndian (layout_file bpe m (srt ts)) 4 = Inr (g, p)"
    have g: "tensors g = decoded_tensors bpe (srt ts)"
      using Decode_written [OF assms(2) ws d] by (simp add: decoded_model_def)
    have l: "length (decoded_tensors bpe (srt ts)) = length ts"
      by (simp add: decoded_tensors_def ls)
    show "length (tensors g) = length ts
          \<and> (\<forall>i < length ts.
               Name (tensors g ! i) = Name (srt ts ! i)
               \<and> Kind (tensors g ! i) = Kind (srt ts ! i)
               \<and> Offset (tensors g ! i) = offsets bpe 0 (srt ts) ! i
               \<and> Shape (tensors g ! i) = rev (Shape (srt ts ! i)))"
      by (simp add: g l decoded_tensors_nth ls)
  qed
  have t: "seeks_fit bpe (uint (alignment_of m)) (decoded_tensors bpe (srt ts))
           (length (layout_head bpe m (srt ts))) \<longrightarrow>
         (\<exists>g p. containerGGUF_Decode bpe LittleEndian (layout_file bpe m (srt ts)) 4 = Inr (g, p))"
    using Decode_total [OF assms(2) ws] by blast
  show ?thesis
    by (intro exI [of _ "layout_file bpe m (srt ts)"] conjI w r t)
qed

theorem WriteGGUF_Decode_tensors_witness:
  "sorts_by_Name (sort_key Name) \<and> wf_kv example_kv \<and> wf_tensors example_tensors
   \<and> (\<exists>file g p. WriteGGUF four_bytes (sort_key Name) [] example_kv example_tensors = Inr file
        \<and> containerGGUF_Decode four_bytes LittleEndian file 4 = Inr (g, p)
        \<and> map Name (tensors g) = [''a.weight'', ''b.weight'']
        \<and> map Offset (tensors g) = [0, 20]
        \<and> map Shape (tensors g) = [[5], [3, 2]])"
proof -
  note ws = wf_tensors_sorted [OF sort_key_sorts_by_Name wf_example_tensors]
  have w: "WriteGGUF four_bytes (sort_key Name) [] example_kv example_tensors
      = Inr (layout_file four_bytes example_kv (sort_key Name example_tensors))"
    using sort_key_sorts_by_Name wf_example_kv wf_example_tensors by (rule WriteGGUF_layout)
  from WriteGGUF_Decode_tensors [OF sort_key_sorts_by_Name wf_example_kv wf_example_tensors,
      of four_bytes]
  obtain f where w': "WriteGGUF four_bytes (sort_key Name) [] example_kv example_tensors = Inr f"
    and t: "seeks_fit four_bytes (uint (alignment_of example_kv))
           (decoded_tensors four_bytes (sort_key Name example_tensors))
           (length (layout_head four_bytes example_kv (sort_key Name example_tensors))) \<longrightarrow>
         (\<exists>g p. containerGGUF_Decode four_bytes LittleEndian f 4 = Inr (g, p))"
    by (elim exE conjE) (rule that)
  from w w' have f: "f = layout_file four_bytes example_kv (sort_key Name example_tensors)"
    by simp
  from t seeks_fit_example
  have ex: "\<exists>g p. containerGGUF_Decode four_bytes LittleEndian f 4 = Inr (g, p)"
    by (rule mp)
  from ex obtain g p where d: "containerGGUF_Decode four_bytes LittleEndian f 4 = Inr (g, p)"
    by blast
  have "tensors g = decoded_tensors four_bytes (sort_key Name example_tensors)"
    using Decode_written [OF wf_example_kv ws d [unfolded f]]
    by (simp add: decoded_model_def)
  then have "map Name (tensors g) = [''a.weight'', ''b.weight'']"
    and "map Offset (tensors g) = [0, 20]"
    and "map Shape (tensors g) = [[5], [3, 2]]"
    by (simp_all add: evaluate_example_tensors)
  with w' d sort_key_sorts_by_Name wf_example_kv wf_example_tensors show ?thesis
    by - (intro conjI exI, assumption+)
qed
lemma dom_decoded_kv:
  "dom (map_of (decoded_kv m ps)) = insert ''general.parameter_count'' (fst ` set m)"
  by (simp add: map_of_decoded_kv dom_map_option_comp dom_map_of_conv_image_fst)

lemma wf_colliding_kv: "wf_kv colliding_kv"
  by (simp add: wf_kv_def wf_entry_def colliding_kv_def go_len_def)

lemma wf_no_tensors: "wf_tensors []"
  by (simp add: wf_tensors_def go_len_def)

lemma evaluate_colliding_kv:
  "decoded_kv colliding_kv 0 =
     [(''general.parameter_count'', U64 0), (''tokenizer.ggml.token_type'', ArrAny [I32 1])]"
  by (simp add: decoded_kv_def written_entries_def colliding_kv_def kv_get_def)

lemma seeks_fit_colliding:
  "seeks_fit four_bytes (uint (alignment_of colliding_kv)) (decoded_tensors four_bytes [])
     (length (layout_head four_bytes colliding_kv []))"
proof -
  have "length (layout_head four_bytes colliding_kv []) = 116"
    by (simp add: layout_head_def written_entries_def colliding_kv_def layout_entry_def kv_get_def)
  then show ?thesis
    by (simp add: seeks_fit_def alignment_of_def colliding_kv_def decoded_tensors_def)
qed

lemma sort_no_tensors: "sort_key Name [] = []"
  by simp

text \<open>
  Claim C1, as amended. For well-formed writer input, and a sorting procedure that meets
  the contract of \<open>slices.SortFunc\<close>, whenever \<open>Decode\<close> returns a model
  for the file that \<open>WriteGGUF\<close> produced, its metadata map is the map that was written,
  with every typed array read back as a generic list of its elements (\<open>[]any\<close>) and
  with the key \<open>general.parameter_count\<close> set to the sum over the tensors of the product
  of their dimensions (in 64-bit arithmetic), in place of any value the written map held
  under that key; the keys are those of the written map and that one. \<open>Decode\<close> returns
  a model when its seeks stay in range.
\<close>

theorem WriteGGUF_Decode_metadata:
  assumes "sorts_by_Name srt" and "wf_kv m" and "wf_tensors ts"
  shows "\<exists>file. WriteGGUF bpe srt [] m ts = Inr file
     \<and> (\<forall>g p. containerGGUF_Decode bpe LittleEndian file 4 = Inr (g, p) \<longrightarrow>
          map_of (kv g) =
            (map_option as_read \<circ> map_of m)
              (''general.parameter_count'' \<mapsto> U64 (sum_list (map parameters ts)))
          \<and> dom (map_of (kv g)) = insert ''general.parameter_count'' (fst ` set m))
     \<and> (seeks_fit bpe (uint (alignment_of m)) (decoded_tensors bpe (srt ts))
           (length (layout_head bpe m (srt ts))) \<longrightarrow>
         (\<exists>g p. containerGGUF_Decode bpe LittleEndian file 4 = Inr (g, p)))"
proof -
  note ws = wf_tensors_sorted [OF assms(1,3)]
  note ps = sorts_by_Name_sum_list [OF assms(1), of parameters ts]
  have w: "WriteGGUF bpe srt [] m ts = Inr (layout_file bpe m (srt ts))"
    using assms by (rule WriteGGUF_layout)
  have r: "\<forall>g p. containerGGUF_Decode bpe LittleEndian (layout_file bpe m (srt ts)) 4 = Inr (g, p) \<longrightarrow>
          map_of (kv g) =
            (map_option as_read \<circ> map_of m)
              (''general.parameter_count'' \<mapsto> U64 (sum_list (map parameters ts)))
          \<and> dom (map_of (kv g)) = insert ''general.parameter_count'' (fst ` set m)"
  proof (intro allI impI)
    fix g p
    assume d: "containerGGUF_Decode bpe LittleEndian (layout_file bpe m (srt ts)) 4 = Inr (g, p)"
    have g: "kv g = decoded_kv m (sum_list (map parameters ts))"
      using Decode_written [OF assms(2) ws d] by (simp add: decoded_model_def ps)
    show "map_of (kv g) =
            (map_option as_read \<circ> map_of m)
              (''general.parameter_count'' \<mapsto> U64 (sum_list (map parameters ts)))
          \<and> dom (map_of (kv g)) = insert ''general.parameter_count'' (fst ` set m)"
      unfolding g by (intro conjI map_of_decoded_kv dom_decoded_kv)
  qed
  have t: "seeks_fit bpe (uint (alignment_of m)) (decoded_tensors bpe (srt ts))
           (length (layout_head bpe m (srt ts))) \<longrightarrow>
         (\<exists>g p. containerGGUF_Decode bpe LittleEndian (layout_file bpe m (srt ts)) 4 = Inr (g, p))"
    using Decode_total [OF assms(2) ws] by blast
  show ?thesis
    by (intro exI [of _ "layout_file bpe m (srt ts)"] conjI w r t)
qed

theorem WriteGGUF_Decode_metadata_witness:
  "sorts_by_Name (sort_key Name) \<and> wf_kv example_kv \<and> wf_tensors example_tensors
   \<and> (\<exists>file g p. WriteGGUF four_bytes (sort_key Name) [] example_kv example_tensors = Inr file
        \<and> containerGGUF_Decode four_bytes LittleEndian file 4 = Inr (g, p)
        \<and> map_of (kv g) ''general.parameter_count'' = Some (U64 11)
        \<and> map_of (kv g) ''general.file_type'' = Some (U32 1)
        \<and> map_of (kv g) ''general.architecture'' = Some (Str ''phi''))"
proof -
  from WriteGGUF_Decode_metadata [OF sort_key_sorts_by_Name wf_example_kv wf_example_tensors,
      of four_bytes]
  obtain f where w: "WriteGGUF four_bytes (sort_key Name) [] example_kv example_tensors = Inr f"
    and r: "\<forall>g p. containerGGUF_Decode four_bytes LittleEndian f 4 = Inr (g, p) \<longrightarrow>
          map_of (kv g) =
            (map_option as_read \<circ> map_of example_kv)
              (''general.parameter_count'' \<mapsto> U64 (sum_list (map parameters example_tensors)))
          \<and> dom (map_of (kv g)) = insert ''general.parameter_count'' (fst ` set example_kv)"
    and t: "seeks_fit four_bytes (uint (alignment_of example_kv))
           (decoded_tensors four_bytes (sort_key Name example_tensors))
           (length (layout_head four_bytes example_kv (sort_key Name example_tensors))) \<longrightarrow>
         (\<exists>g p. containerGGUF_Decode four_bytes LittleEndian f 4 = Inr (g, p))"
    by (elim exE conjE) (rule that)
  from t seeks_fit_example
  have ex: "\<exists>g p. containerGGUF_Decode four_bytes LittleEndian f 4 = Inr (g, p)"
    by (rule mp)
  from ex obtain g p where d: "containerGGUF_Decode four_bytes LittleEndian f 4 = Inr (g, p)"
    by blast
  from r [rule_format, OF d] have m: "map_of (kv g) =
            (map_option as_read \<circ> map_of example_kv)
              (''general.parameter_count'' \<mapsto> U64 (sum_list (map parameters example_tensors)))"
    by (rule conjunct1)
  have "map_of (kv g) ''general.parameter_count'' = Some (U64 11)"
    and "map_of (kv g) ''general.file_type'' = Some (U32 1)"
    and "map_of (kv g) ''general.architecture'' = Some (Str ''phi'')"
    by (simp_all add: m example_kv_def example_tensors_def parameters_def)
  with w d sort_key_sorts_by_Name wf_example_kv wf_example_tensors show ?thesis
    by - (intro conjI exI, assumption+)
qed

text \<open>
  Claim C1 as stated fails on a map that holds \<open>general.parameter_count\<close> and a typed
  array, written with no tensor (the sort of the empty list is the empty list): the
  decoded map has no key more than the written map, the written value \<open>uint32(7)\<close> of
  \<open>general.parameter_count\<close> has become \<open>uint64(0)\<close>, and the \<open>[]int32\<close> has become
  a \<open>[]any\<close>.
\<close>

theorem WriteGGUF_Decode_metadata_collision:
  "(case WriteGGUF four_bytes (sort_key Name) [] colliding_kv [] of
      Inl e \<Rightarrow> []
    | Inr file \<Rightarrow>
        (case containerGGUF_Decode four_bytes LittleEndian file 4 of
           Inl e \<Rightarrow> []
         | Inr (g, p) \<Rightarrow> kv g))
   = [(''general.parameter_count'', U64 0), (''tokenizer.ggml.token_type'', ArrAny [I32 1])]"
proof -
  have w: "WriteGGUF four_bytes (sort_key Name) [] colliding_kv []
      = Inr (layout_file four_bytes colliding_kv [])"
    using WriteGGUF_layout [OF sort_key_sorts_by_Name wf_colliding_kv wf_no_tensors, of four_bytes]
    by (simp only: sort_no_tensors)
  obtain p where d: "containerGGUF_Decode four_bytes LittleEndian
      (layout_file four_bytes colliding_kv []) 4 = Inr (decoded_model four_bytes colliding_kv [], p)"
    using Decode_total [OF wf_colliding_kv wf_no_tensors seeks_fit_colliding] by blast
  show ?thesis
    by (simp add: w d decoded_model_def evaluate_colliding_kv)
qed
section \<open>Order of the entries and offsets of the descriptors\<close>

lemma offsets_nth:
  "i < length ts \<Longrightarrow> offsets bpe s ts ! i = s + sum_list (map (Size bpe) (take i ts))"
proof (induction ts arbitrary: s i)
  case Nil
  then show ?case by simp
next
  case (Cons t ts)
  show ?case
  proof (cases i)
    case 0
    then show ?thesis by simp
  next
    case (Suc j)
    with Cons.prems have "j < length ts" by simp
    then have "offsets bpe (s + Size bpe t) ts ! j =
        s + Size bpe t + sum_list (map (Size bpe) (take j ts))"
      by (rule Cons.IH)
    then show ?thesis by (simp add: Suc add.assoc)
  qed
qed

lemma uint_sizes_nonneg: "0 \<le> sum_list (map (\<lambda>t. uint (Size bpe t)) ts)"
  by (induction ts) simp_all

lemma word_add_no_overflow:
  fixes s x :: "64 word"
  assumes "uint s + uint x < 2 ^ 64"
  shows "uint (s + x) = uint s + uint x"
  using assms uint_add_lem [of s x] by simp

lemma offsets_lower:
  "uint s + sum_list (map (\<lambda>t. uint (Size bpe t)) ts) < 2 ^ 64 \<Longrightarrow>
     list_all (\<lambda>x. s \<le> x) (offsets bpe s ts)"
proof (induction ts arbitrary: s)
  case Nil
  then show ?case by simp
next
  case (Cons t ts)
  have nn: "0 \<le> sum_list (map (\<lambda>t. uint (Size bpe t)) ts)" by (rule uint_sizes_nonneg)
  from Cons.prems have b: "uint s + uint (Size bpe t)
      + sum_list (map (\<lambda>t. uint (Size bpe t)) ts) < 2 ^ 64" by simp
  have u: "uint (s + Size bpe t) = uint s + uint (Size bpe t)"
    using b nn by (intro word_add_no_overflow) linarith
  have le: "s \<le> s + Size bpe t"
    by (simp add: word_le_def u)
  have "list_all (\<lambda>x. s + Size bpe t \<le> x) (offsets bpe (s + Size bpe t) ts)"
    using b by (intro Cons.IH) (simp add: u)
  then have "list_all (\<lambda>x. s \<le> x) (offsets bpe (s + Size bpe t) ts)"
    using le by (auto simp: list_all_iff)
  then show ?case by simp
qed

lemma offsets_sorted:
  "uint s + sum_list (map (\<lambda>t. uint (Size bpe t)) ts) < 2 ^ 64 \<Longrightarrow>
     sorted (offsets bpe s ts)"
proof (induction ts arbitrary: s)
  case Nil
  then show ?case by simp
next
  case (Cons t ts)
  have nn: "0 \<le> sum_list (map (\<lambda>t. uint (Size bpe t)) ts)" by (rule uint_sizes_nonneg)
  from Cons.prems have b: "uint s + uint (Size bpe t)
      + sum_list (map (\<lambda>t. uint (Size bpe t)) ts) < 2 ^ 64" by simp
  have u: "uint (s + Size bpe t) = uint s + uint (Size bpe t)"
    using b nn by (intro word_add_no_overflow) linarith
  have b': "uint (s + Size bpe t) + sum_list (map (\<lambda>t. uint (Size bpe t)) ts) < 2 ^ 64"
    using b by (simp add: u)
  have le: "s \<le> s + Size bpe t"
    by (simp add: word_le_def u)
  have "list_all (\<lambda>x. s + Size bpe t \<le> x) (offsets bpe (s + Size bpe t) ts)"
    using b' by (rule offsets_lower)
  then have "\<forall>x\<in>set (offsets bpe (s + Size bpe t) ts). s \<le> x"
    using le by (auto simp: list_all_iff)
  moreover have "sorted (offsets bpe (s + Size bpe t) ts)"
    using b' by (rule Cons.IH)
  ultimately show ?case by simp
qed

lemma offsets_strictly_sorted:
  "uint s + sum_list (map (\<lambda>t. uint (Size bpe t)) ts) < 2 ^ 64 \<Longrightarrow>
     sorted_wrt (<) (offsets bpe s ts) = list_all (\<lambda>t. Size bpe t \<noteq> 0) (butlast ts)"
proof (induction ts arbitrary: s)
  case Nil
  then show ?case by simp
next
  case (Cons t ts)
  have nn: "0 \<le> sum_list (map (\<lambda>t. uint (Size bpe t)) ts)" by (rule uint_sizes_nonneg)
  from Cons.prems(1) have b: "uint s + uint (Size bpe t)
      + sum_list (map (\<lambda>t. uint (Size bpe t)) ts) < 2 ^ 64" by simp
  have u: "uint (s + Size bpe t) = uint s + uint (Size bpe t)"
    using b nn by (intro word_add_no_overflow) linarith
  have b': "uint (s + Size bpe t) + sum_list (map (\<lambda>t. uint (Size bpe t)) ts) < 2 ^ 64"
    using b by (simp add: u)
  have lo: "\<forall>x\<in>set (offsets bpe (s + Size bpe t) ts). s + Size bpe t \<le> x"
    using offsets_lower [OF b'] by (simp add: list_all_iff)
  have ih: "sorted_wrt (<) (offsets bpe (s + Size bpe t) ts)
      = list_all (\<lambda>t. Size bpe t \<noteq> 0) (butlast ts)"
    using b' by (rule Cons.IH)
  have lt: "(s < s + Size bpe t) = (Size bpe t \<noteq> 0)"
  proof -
    have "(uint (Size bpe t) = 0) = (Size bpe t = 0)" by (simp add: unsigned_eq_0_iff)
    moreover have "0 \<le> uint (Size bpe t)" by simp
    ultimately have z: "(0 < uint (Size bpe t)) = (Size bpe t \<noteq> 0)" by linarith
    have "(s < s + Size bpe t) = (0 < uint (Size bpe t))"
      by (simp add: word_less_def u)
    also note z
    finally show ?thesis .
  qed
  show ?case
  proof (cases ts)
    case Nil
    then show ?thesis by simp
  next
    case (Cons t' ts')
    then have m: "s + Size bpe t \<in> set (offsets bpe (s + Size bpe t) ts)" by simp
    from Cons have nz: "ts \<noteq> []" by simp
    have c: "(\<forall>x\<in>set (offsets bpe (s + Size bpe t) ts). s < x) = (Size bpe t \<noteq> 0)"
    proof
      assume "\<forall>x\<in>set (offsets bpe (s + Size bpe t) ts). s < x"
      with m have "s < s + Size bpe t" by blast
      with lt show "Size bpe t \<noteq> 0" by blast
    next
      assume "Size bpe t \<noteq> 0"
      with lt have "s < s + Size bpe t" by blast
      with lo show "\<forall>x\<in>set (offsets bpe (s + Size bpe t) ts). s < x" by fastforce
    qed
    have "sorted_wrt (<) (offsets bpe s (t # ts)) =
        ((\<forall>x\<in>set (offsets bpe (s + Size bpe t) ts). s < x)
         \<and> sorted_wrt (<) (offsets bpe (s + Size bpe t) ts))"
      by simp
    also have "\<dots> = (Size bpe t \<noteq> 0 \<and> list_all (\<lambda>t. Size bpe t \<noteq> 0) (butlast ts))"
      by (simp only: c ih)
    also have "\<dots> = list_all (\<lambda>t. Size bpe t \<noteq> 0) (butlast (t # ts))"
      using nz by simp
    finally show ?thesis .
  qed
qed

lemma wf_empty_dim_tensors: "wf_tensors empty_dim_tensors"
  by (simp add: wf_tensors_def wf_tensor_def empty_dim_tensors_def go_len_def has_payload_def)

lemma wf_wrapping_tensors: "wf_tensors wrapping_tensors"
  by (simp add: wf_tensors_def wf_tensor_def wrapping_tensors_def go_len_def has_payload_def)

lemma wf_empty_kv: "wf_kv []"
  by (simp add: wf_kv_def go_len_def)

lemma sort_empty_dim_tensors: "sort_key Name empty_dim_tensors = empty_dim_tensors"
  by (simp add: empty_dim_tensors_def)

lemma sort_wrapping_tensors: "sort_key Name wrapping_tensors = wrapping_tensors"
  by (simp add: wrapping_tensors_def)

lemma evaluate_empty_dim_tensors:
  "decoded_tensors four_bytes empty_dim_tensors =
     [\<lparr>Name = ''a'', Kind = 0, Offset = 0, Shape = [0], WriterTo = None\<rparr>,
      \<lparr>Name = ''b'', Kind = 0, Offset = 0, Shape = [1], WriterTo = None\<rparr>]"
  by (simp add: decoded_tensors_def decoded_tensor_def empty_dim_tensors_def four_bytes_def
      Size_def parameters_def)

lemma seeks_fit_empty_dim:
  "seeks_fit four_bytes (uint (alignment_of [])) (decoded_tensors four_bytes empty_dim_tensors)
     (length (layout_head four_bytes [] empty_dim_tensors))"
proof -
  have "length (layout_head four_bytes [] empty_dim_tensors) = 90"
    by (simp add: layout_head_def written_entries_def empty_dim_tensors_def
        layout_descriptor_def)
  then show ?thesis
    unfolding evaluate_empty_dim_tensors
    by (simp add: seeks_fit_def alignment_of_def four_bytes_def Size_def parameters_def)
qed

text \<open>
  Claim C3, as amended. For well-formed writer input, and a sorting procedure that meets
  the contract of \<open>slices.SortFunc\<close>, the file is the layout of section 6 of the
  specification with the metadata entries in strictly ascending order of key, the
  descriptors and then the payloads in one ascending order of name (a rearrangement of
  the tensors given), and each descriptor's offset equal to the running sum, in wrapping
  64-bit arithmetic, of the sizes of the tensors before it. When the sizes add up to less
  than \<open>2^64\<close> the offsets are ascending, and they are strictly ascending if and only if
  every tensor but the last one written has a size other than zero.
\<close>

theorem WriteGGUF_ordering:
  assumes "sorts_by_Name srt" and "wf_kv m" and "wf_tensors ts"
  shows "WriteGGUF bpe srt [] m ts = Inr (layout_file bpe m (srt ts))
     \<and> sorted_wrt (<) (map fst (written_entries m))
     \<and> set (map fst (written_entries m)) = set (map fst m)
     \<and> sorted (map Name (srt ts)) \<and> mset (srt ts) = mset ts
     \<and> (\<forall>i < length ts. offsets bpe 0 (srt ts) ! i =
           sum_list (map (Size bpe) (take i (srt ts))))
     \<and> (sum_list (map (\<lambda>t. uint (Size bpe t)) ts) < 2 ^ 64 \<longrightarrow>
           sorted (offsets bpe 0 (srt ts))
           \<and> sorted_wrt (<) (offsets bpe 0 (srt ts))
               = list_all (\<lambda>t. Size bpe t \<noteq> 0) (butlast (srt ts)))"
proof -
  have w: "WriteGGUF bpe srt [] m ts = Inr (layout_file bpe m (srt ts))"
    using assms by (rule WriteGGUF_layout)
  from assms(2) have "distinct (map fst m)" by (simp add: wf_kv_def)
  then have k: "sorted_wrt (<) (map fst (written_entries m))"
    by (simp add: written_entries_def comp_def strict_sorted_iff)
  have ks: "set (map fst (written_entries m)) = set (map fst m)"
    by (simp add: written_entries_def comp_def)
  from assms(1) have n: "sorted (map Name (srt ts))" and p: "mset (srt ts) = mset ts"
    by (simp_all add: sorts_by_Name_def)
  have o: "\<forall>i < length ts. offsets bpe 0 (srt ts) ! i =
           sum_list (map (Size bpe) (take i (srt ts)))"
    by (simp add: offsets_nth sorts_by_Name_length [OF assms(1)])
  note e = sorts_by_Name_sum_list [OF assms(1), of "\<lambda>t. uint (Size bpe t)" ts]
  have s: "sum_list (map (\<lambda>t. uint (Size bpe t)) ts) < 2 ^ 64 \<longrightarrow>
           sorted (offsets bpe 0 (srt ts))
           \<and> sorted_wrt (<) (offsets bpe 0 (srt ts))
               = list_all (\<lambda>t. Size bpe t \<noteq> 0) (butlast (srt ts))"
    using offsets_sorted [of 0 bpe "srt ts"] offsets_strictly_sorted [of 0 bpe "srt ts"]
    by (simp add: e)
  show ?thesis
    by (intro conjI w k ks n p o s)
qed

theorem WriteGGUF_ordering_witness:
  "sorts_by_Name (sort_key Name) \<and> wf_kv example_kv \<and> wf_tensors example_tensors
   \<and> sum_list (map (\<lambda>t. uint (Size four_bytes t)) example_tensors) < 2 ^ 64
   \<and> WriteGGUF four_bytes (sort_key Name) [] example_kv example_tensors
       = Inr (layout_file four_bytes example_kv (sort_key Name example_tensors))
   \<and> map fst (written_entries example_kv) = [''general.architecture'', ''general.file_type'']
   \<and> map Name (sort_key Name example_tensors) = [''a.weight'', ''b.weight'']
   \<and> offsets four_bytes 0 (sort_key Name example_tensors) = [0, 20]
   \<and> list_all (\<lambda>t. Size four_bytes t \<noteq> 0) (butlast (sort_key Name example_tensors))
   \<and> sorted_wrt (<) (offsets four_bytes 0 (sort_key Name example_tensors))"
proof -
  have a: "sum_list (map (\<lambda>t. uint (Size four_bytes t)) example_tensors) < 2 ^ 64"
    by (simp add: example_tensors_def four_bytes_def Size_def parameters_def)
  have b: "list_all (\<lambda>t. Size four_bytes t \<noteq> 0) (butlast (sort_key Name example_tensors))"
    unfolding sort_example_tensors by (simp add: four_bytes_def Size_def parameters_def)
  have c: "map fst (written_entries example_kv) = [''general.architecture'', ''general.file_type'']"
    by (simp add: written_entries_def example_kv_def)
  have d: "map Name (sort_key Name example_tensors) = [''a.weight'', ''b.weight'']"
    and e: "offsets four_bytes 0 (sort_key Name example_tensors) = [0, 20]"
    unfolding sort_example_tensors by (simp_all add: four_bytes_def Size_def parameters_def)
  note t = WriteGGUF_ordering [OF sort_key_sorts_by_Name wf_example_kv wf_example_tensors,
      of four_bytes]
  from t have w: "WriteGGUF four_bytes (sort_key Name) [] example_kv example_tensors
       = Inr (layout_file four_bytes example_kv (sort_key Name example_tensors))"
    by (rule conjunct1)
  from t a b have s: "sorted_wrt (<) (offsets four_bytes 0 (sort_key Name example_tensors))"
    by blast
  show ?thesis
    by (intro conjI sort_key_sorts_by_Name wf_example_kv wf_example_tensors a w c d e b s)
qed

text \<open>
  Claim C3 as stated fails. A tensor with an empty dimension has size zero, so the tensor
  after it gets the same offset, in the writer's list and in the descriptors read back
  from the file: the offsets are not strictly ascending. And the bound on the sum of the
  sizes is needed for them to be ascending at all: two tensors of \<open>2^61\<close> elements of
  four bytes have sizes that add up to \<open>2^64\<close>, the running sum wraps, and the third
  tensor gets the offset zero after the offset \<open>2^63\<close>. In both inputs the names are
  distinct and already in order, so every sorting procedure leaves them as they are.
\<close>

theorem WriteGGUF_offsets_not_strict:
  "WriteGGUF four_bytes (sort_key Name) [] [] empty_dim_tensors
     = Inr (layout_file four_bytes [] empty_dim_tensors)
   \<and> offsets four_bytes 0 (sort_key Name empty_dim_tensors) = [0, 0]
   \<and> (case containerGGUF_Decode four_bytes LittleEndian
              (layout_file four_bytes [] empty_dim_tensors) 4 of
         Inl e \<Rightarrow> []
       | Inr (g, p) \<Rightarrow> map Offset (tensors g)) = [0, 0]
   \<and> WriteGGUF four_bytes (sort_key Name) [] [] wrapping_tensors
       = Inr (layout_file four_bytes [] wrapping_tensors)
   \<and> offsets four_bytes 0 (sort_key Name wrapping_tensors) = [0, 9223372036854775808, 0]
   \<and> \<not> sorted (offsets four_bytes 0 (sort_key Name wrapping_tensors))"
proof -
  have w: "WriteGGUF four_bytes (sort_key Name) [] [] empty_dim_tensors
      = Inr (layout_file four_bytes [] empty_dim_tensors)"
    using WriteGGUF_layout [OF sort_key_sorts_by_Name wf_empty_kv wf_empty_dim_tensors,
        of four_bytes]
    by (simp only: sort_empty_dim_tensors)
  have o: "offsets four_bytes 0 (sort_key Name empty_dim_tensors) = [0, 0]"
    unfolding sort_empty_dim_tensors
    by (simp add: empty_dim_tensors_def four_bytes_def Size_def parameters_def)
  obtain p where d: "containerGGUF_Decode four_bytes LittleEndian
      (layout_file four_bytes [] empty_dim_tensors) 4
        = Inr (decoded_model four_bytes [] empty_dim_tensors, p)"
    using Decode_total [OF wf_empty_kv wf_empty_dim_tensors seeks_fit_empty_dim] by blast
  have r: "(case containerGGUF_Decode four_bytes LittleEndian
              (layout_file four_bytes [] empty_dim_tensors) 4 of
         Inl e \<Rightarrow> []
       | Inr (g, p) \<Rightarrow> map Offset (tensors g)) = [0, 0]"
    by (simp add: d decoded_model_def evaluate_empty_dim_tensors)
  have w': "WriteGGUF four_bytes (sort_key Name) [] [] wrapping_tensors
      = Inr (layout_file four_bytes [] wrapping_tensors)"
    using WriteGGUF_layout [OF sort_key_sorts_by_Name wf_empty_kv wf_wrapping_tensors,
        of four_bytes]
    by (simp only: sort_wrapping_tensors)
  have o': "offsets four_bytes 0 (sort_key Name wrapping_tensors) = [0, 9223372036854775808, 0]"
    unfolding sort_wrapping_tensors
    by (simp add: wrapping_tensors_def four_bytes_def Size_def parameters_def)
  have n: "\<not> sorted (offsets four_bytes 0 (sort_key Name wrapping_tensors))"
    unfolding o' by simp
  show ?thesis
    by (intro conjI w o r w' o' n)
qed
section \<open>The Phi adapter\<close>

lemma ggufWriteKV_prefix: "ggufWriteKV ws k v = Inr ws' \<Longrightarrow> \<exists>x. ws' = ws @ x"
  by (cases "write_supported v") (auto simp: ggufWriteKV_layout ggufWriteKV_improper)

lemma write_kvs_prefix: "write_kvs ws m keys = Inr ws' \<Longrightarrow> \<exists>x. ws' = ws @ x"
proof (induction keys arbitrary: ws)
  case Nil
  then show ?case by simp
next
  case (Cons key keys)
  from Cons.prems obtain ws1 where 1: "ggufWriteKV ws key (kv_get m key) = Inr ws1"
    and 2: "write_kvs ws1 m keys = Inr ws'"
    by (cases "ggufWriteKV ws key (kv_get m key)") (simp_all add: bnd_def)
  from 1 obtain x where "ws1 = ws @ x" using ggufWriteKV_prefix by blast
  moreover from 2 obtain y where "ws' = ws1 @ y" using Cons.IH by blast
  ultimately show ?case by simp
qed

lemma Decode_no_tensors:
  assumes "file = bytes_of_string ''GGUF'' @ le32 3 @ le64 0 @ rest"
    and "containerGGUF_Decode bpe LittleEndian file 4 = Inr (g, p)"
  shows "tensors g = []"
proof -
  have d4: "drop 4 file = le32 3 @ (le64 0 @ rest)"
    by (simp add: assms(1))
  have rv: "readGGUF LittleEndian 4 file 4 = Inr (3 :: 32 word, 4 + 4)"
    using d4 by (rule readGGUF_le32)
  have d8: "drop (4 + 4) file = le64 0 @ rest"
    using drop_after [OF d4] by simp
  have v3: "(3 :: 32 word) \<noteq> 1" by simp
  from assms(2) obtain bs pos2 where
    rh: "read_full file (4 + 4) 16 = Inr (bs, pos2)"
    and g: "gguf_Decode bpe LittleEndian 3 (decode_word LittleEndian (take 8 bs))
              (decode_word LittleEndian (drop 8 bs)) file pos2 = Inr (g, p)"
    unfolding containerGGUF_Decode_def rv bnd_def sum.case prod.case if_not_P [OF v3]
    by (auto split: sum.splits)
  have d8': "drop 8 file = le64 0 @ rest"
    using d8 by simp
  from rh have "take 8 bs = le64 0"
    by (auto simp: read_full_def d8' split: if_splits)
  then have z: "(decode_word LittleEndian (take 8 bs) :: 64 word) = 0"
    by (simp add: decode_word_def)
  from g show ?thesis
    unfolding gguf_Decode_def z
    by (auto simp: bnd_def Let_def split: sum.splits)
qed

lemma sorts_by_Name_Nil: "sorts_by_Name srt \<Longrightarrow> srt [] = []"
proof -
  assume "sorts_by_Name srt"
  then have "mset (srt []) = mset []" by (simp only: sorts_by_Name_def)
  then show ?thesis by simp
qed

lemma phi_conversion_shape:
  assumes "sorts_by_Name srt"
  shows "Convert_write bpe srt ws phi_KV phi_Tensors v sv ts =
       bnd (phi_KV v sv) (\<lambda>m.
         bnd (write_kvs (ws @ bytes_of_string ''GGUF'' @ le32 3 @ le64 0 @ le64 (of_nat (length m)))
                m (sort (map fst m)))
           (\<lambda>ws5. Inr (ws5 @ replicate (nat (go_rem (32 - go_rem (int (length ws5)) 32) 32)) 0)))"
  by (simp add: phi_Tensors_def Convert_write_def WriteGGUF_def ggufPadding_def bnd_def
      sorts_by_Name_Nil [OF assms])

lemma phi_conversion_read_back:
  assumes "sorts_by_Name srt"
  shows "(case Convert_write bpe srt [] phi_KV phi_Tensors v sv ts of
      Inl e \<Rightarrow> True
    | Inr file \<Rightarrow>
        take 8 (drop 8 file) = le64 0
        \<and> (case containerGGUF_Decode bpe LittleEndian file 4 of
              Inl e \<Rightarrow> True
            | Inr (g, p) \<Rightarrow> tensors g = []))"
proof (cases "Convert_write bpe srt [] phi_KV phi_Tensors v sv ts")
  case (Inl e)
  then show ?thesis by simp
next
  case (Inr f)
  from Inr obtain m ws5 where
    k: "write_kvs (bytes_of_string ''GGUF'' @ le32 3 @ le64 0 @ le64 (of_nat (length m)))
          m (sort (map fst m)) = Inr ws5"
    and f: "f = ws5 @ replicate (nat (go_rem (32 - go_rem (int (length ws5)) 32) 32)) 0"
    by (auto simp: Convert_write_def phi_Tensors_def WriteGGUF_def ggufPadding_def bnd_def
        sorts_by_Name_Nil [OF assms] split: sum.splits)
  from k obtain x where
    "ws5 = (bytes_of_string ''GGUF'' @ le32 3 @ le64 0 @ le64 (of_nat (length m))) @ x"
    using write_kvs_prefix by blast
  with f have l: "f = bytes_of_string ''GGUF'' @ le32 3 @ le64 0
      @ (le64 (of_nat (length m)) @ x
         @ replicate (nat (go_rem (32 - go_rem (int (length ws5)) 32) 32)) 0)"
    by simp
  have h: "take 8 (drop 8 f) = le64 0"
    by (simp add: l)
  have t: "tensors g = []" if "containerGGUF_Decode bpe LittleEndian f 4 = Inr (g, p)" for g p
    using l that by (rule Decode_no_tensors)
  show ?thesis
    by (simp add: Inr h t split: sum.splits prod.splits)
qed

lemma phi_KV_empty_vocabulary:
  "phi_KV empty_vocabulary [] =
     Inr [(''general.file_type'', U32 1), (''tokenizer.ggml.pre'', Str ''default''),
          (''tokenizer.ggml.tokens'', ArrStr []), (''tokenizer.ggml.scores'', ArrF32 []),
          (''tokenizer.ggml.token_type'', ArrI32 []), (''general.architecture'', Str ''phi''),
          (''tokenizer.ggml.model'', Str ''llama'')]"
  by (simp add: phi_KV_def Parameters_KV_def empty_vocabulary_def bnd_def)

text \<open>
  Claim C9. \<open>phi.Tensors\<close> is the empty list for every input, and both Phi architecture
  names select the Phi adapter. With a sorting procedure that meets the contract of
  \<open>slices.SortFunc\<close> (it leaves the empty slice empty), the file that \<open>Convert\<close> then
  writes has a tensor count of zero in its header and, after the metadata entries, only
  the alignment padding: no tensor descriptor and no payload. Whenever the conversion
  produces a file, every model that \<open>Decode\<close> returns for it has no tensor.
\<close>

theorem phi_Tensors_empty:
  "phi_Tensors ts = []
   \<and> select_converter (''PhiForCausalLM'' # archs) = Inr Phi
   \<and> select_converter (''Phi3ForCausalLM'' # archs) = Inr Phi
   \<and> (sorts_by_Name srt \<longrightarrow>
        Convert_write bpe srt ws phi_KV phi_Tensors v sv ts =
          bnd (phi_KV v sv) (\<lambda>m.
            bnd (write_kvs (ws @ bytes_of_string ''GGUF'' @ le32 3 @ le64 0
                              @ le64 (of_nat (length m)))
                   m (sort (map fst m)))
              (\<lambda>ws5. Inr (ws5 @ replicate (nat (go_rem (32 - go_rem (int (length ws5)) 32) 32)) 0)))
        \<and> (case Convert_write bpe srt [] phi_KV phi_Tensors v sv ts of
             Inl e \<Rightarrow> True
           | Inr file \<Rightarrow>
               take 8 (drop 8 file) = le64 0
               \<and> (case containerGGUF_Decode bpe LittleEndian file 4 of
                     Inl e \<Rightarrow> True
                   | Inr (g, p) \<Rightarrow> tensors g = [])))"
proof (intro conjI impI)
  show "phi_Tensors ts = []"
    by (simp add: phi_Tensors_def)
  show "select_converter (''PhiForCausalLM'' # archs) = Inr Phi"
    by (simp add: select_converter_def)
  show "select_converter (''Phi3ForCausalLM'' # archs) = Inr Phi"
    by (simp add: select_converter_def)
next
  assume "sorts_by_Name srt"
  then show "Convert_write bpe srt ws phi_KV phi_Tensors v sv ts =
          bnd (phi_KV v sv) (\<lambda>m.
            bnd (write_kvs (ws @ bytes_of_string ''GGUF'' @ le32 3 @ le64 0
                              @ le64 (of_nat (length m)))
                   m (sort (map fst m)))
              (\<lambda>ws5. Inr (ws5 @ replicate (nat (go_rem (32 - go_rem (int (length ws5)) 32) 32)) 0)))"
    by (rule phi_conversion_shape)
next
  assume "sorts_by_Name srt"
  then show "case Convert_write bpe srt [] phi_KV phi_Tensors v sv ts of
             Inl e \<Rightarrow> True
           | Inr file \<Rightarrow>
               take 8 (drop 8 file) = le64 0
               \<and> (case containerGGUF_Decode bpe LittleEndian file 4 of
                     Inl e \<Rightarrow> True
                   | Inr (g, p) \<Rightarrow> tensors g = [])"
    by (rule phi_conversion_read_back)
qed

theorem phi_Tensors_empty_witness:
  "sorts_by_Name (sort_key Name)
   \<and> phi_Tensors example_tensors = []
   \<and> (\<exists>file g p.
         Convert_write four_bytes (sort_key Name) [] phi_KV phi_Tensors empty_vocabulary []
           example_tensors = Inr file
         \<and> take 8 (drop 8 file) = le64 0
         \<and> containerGGUF_Decode four_bytes LittleEndian file 4 = Inr (g, p)
         \<and> tensors g = [])"
proof -
  define m where "m = [(''general.file_type'', U32 1), (''tokenizer.ggml.pre'', Str ''default''),
          (''tokenizer.ggml.tokens'', ArrStr []), (''tokenizer.ggml.scores'', ArrF32 []),
          (''tokenizer.ggml.token_type'', ArrI32 []), (''general.architecture'', Str ''phi''),
          (''tokenizer.ggml.model'', Str ''llama'')]"
  have wm: "wf_kv m"
    by (simp add: m_def wf_kv_def wf_entry_def go_len_def)
  have wt: "wf_tensors []"
    by (simp add: wf_tensors_def go_len_def)
  have "WriteGGUF four_bytes (sort_key Name) [] m [] = Inr (layout_file four_bytes m [])"
    using WriteGGUF_layout [OF sort_key_sorts_by_Name wm wt, of four_bytes] by simp
  then have c: "Convert_write four_bytes (sort_key Name) [] phi_KV phi_Tensors empty_vocabulary []
      example_tensors = Inr (layout_file four_bytes m [])"
    by (simp add: Convert_write_def phi_KV_empty_vocabulary bnd_def phi_Tensors_def m_def)
  have "length (layout_head four_bytes m []) = 329"
    by (simp add: m_def layout_head_def written_entries_def layout_entry_def kv_get_def)
  then have "seeks_fit four_bytes (uint (alignment_of m)) (decoded_tensors four_bytes [])
      (length (layout_head four_bytes m []))"
    by (simp add: seeks_fit_def alignment_of_def m_def decoded_tensors_def)
  then obtain p where d: "containerGGUF_Decode four_bytes LittleEndian
      (layout_file four_bytes m []) 4 = Inr (decoded_model four_bytes m [], p)"
    using Decode_total [OF wm wt] by blast
  note t = phi_Tensors_empty [of example_tensors "[]" "sort_key Name" four_bytes "[]"
      empty_vocabulary "[]"]
  from t have e: "phi_Tensors example_tensors = []"
    by (rule conjunct1)
  from t sort_key_sorts_by_Name
  have "case Convert_write four_bytes (sort_key Name) [] phi_KV phi_Tensors empty_vocabulary []
             example_tensors of
          Inl e \<Rightarrow> True
        | Inr file \<Rightarrow>
            take 8 (drop 8 file) = le64 0
            \<and> (case containerGGUF_Decode four_bytes LittleEndian file 4 of
                  Inl e \<Rightarrow> True
                | Inr (g, p) \<Rightarrow> tensors g = [])"
    by blast
  then have h: "take 8 (drop 8 (layout_file four_bytes m [])) = le64 0"
    and g: "tensors (decoded_model four_bytes m []) = []"
    by (simp_all only: c d sum.case prod.case)
  from sort_key_sorts_by_Name e c h d g show ?thesis
    by - (intro conjI exI, assumption+)
qed
end
